theory Spec2Isabelle
  imports Main
begin

section \<open>The record store (shared/schema.ts)\<close>

text \<open>
  The tables of the schema that the assignment engine reads and writes, each as a list of
  rows in insertion order.  Primary keys (\<open>gen_random_uuid()\<close>) are drawn from a counter
  kept in the store, so every generated key is new.  \<open>created_at\<close> is \<open>defaultNow()\<close> on
  every table and no insert schema lets a caller set it, so the order \<open>ORDER BY created_at\<close>
  is the insertion order, which is the order of the list.  Columns that no operation below
  reads (names, phone, address, description, activity flag, timestamps) are left out.
\<close>

type_synonym uuid = nat

record company =
  company_id :: uuid
  company_name :: string
  groupSize :: int

record user =
  user_id :: uuid
  email :: string
  user_companyId :: "uuid option"

record partnership =
  partnership_id :: uuid
  groupId :: string
  companyId :: uuid
  teamNumber :: int
  leaderId :: uuid
  status :: string

record partnershipMember =
  member_id :: uuid
  partnershipId :: uuid
  userId :: uuid

record store =
  companies :: "company list"
  users :: "user list"
  partnerships :: "partnership list"
  partnershipMembers :: "partnershipMember list"
  next_id :: nat

text \<open>What the driver raises, and the engine's own \<open>Error('Company not found')\<close>.\<close>

datatype error =
    CompanyNotFound
  | UniqueViolation string
  | ForeignKeyViolation string
  | CheckViolation string
  | InvalidIntegerInput
  | NumericValueOutOfRange

definition empty_store :: store where
  "empty_store = \<lparr>companies = [], users = [], partnerships = [], partnershipMembers = [],
     next_id = 0\<rparr>"

subsection \<open>Inserts, with the constraints the schema declares\<close>

record insertCompany =
  ic_name :: string
  ic_groupSize :: "int option"

text \<open>
  \<open>group_size integer NOT NULL DEFAULT 4\<close>: the insert schema puts no bound on the size,
  and the column takes the integers of 32 bits.
\<close>

definition createCompany :: "insertCompany \<Rightarrow> store \<Rightarrow> error + (company \<times> store)" where
  "createCompany insertCompany s =
     (let g = (case ic_groupSize insertCompany of None \<Rightarrow> 4 | Some g \<Rightarrow> g)
      in if g < - 2147483648 \<or> 2147483647 < g then Inl NumericValueOutOfRange
         else (let c = \<lparr>company_id = next_id s, company_name = ic_name insertCompany,
                          groupSize = g\<rparr>
               in Inr (c, s\<lparr>companies := companies s @ [c], next_id := Suc (next_id s)\<rparr>)))"

record insertUser =
  iu_email :: string
  iu_companyId :: "uuid option"

definition company_exists :: "uuid \<Rightarrow> store \<Rightarrow> bool" where
  "company_exists c s = list_ex (\<lambda>k. company_id k = c) (companies s)"

definition user_exists :: "uuid \<Rightarrow> store \<Rightarrow> bool" where
  "user_exists u s = list_ex (\<lambda>r. user_id r = u) (users s)"

definition partnership_exists :: "uuid \<Rightarrow> store \<Rightarrow> bool" where
  "partnership_exists t s = list_ex (\<lambda>r. partnership_id r = t) (partnerships s)"

text \<open>
  \<open>users\<close>: \<open>email\<close> is \<open>UNIQUE\<close>, \<open>company_id\<close> references \<open>companies.id\<close> and may be null.
\<close>

definition insert_users :: "insertUser \<Rightarrow> store \<Rightarrow> error + (user \<times> store)" where
  "insert_users v s =
     (if list_ex (\<lambda>r. email r = iu_email v) (users s)
      then Inl (UniqueViolation ''users_email_unique'')
      else if (case iu_companyId v of None \<Rightarrow> False | Some c \<Rightarrow> \<not> company_exists c s)
      then Inl (ForeignKeyViolation ''users_company_id_companies_id_fk'')
      else (let u = \<lparr>user_id = next_id s, email = iu_email v,
                       user_companyId = iu_companyId v\<rparr>
            in Inr (u, s\<lparr>users := users s @ [u], next_id := Suc (next_id s)\<rparr>)))"

record insertPartnership =
  ip_groupId :: string
  ip_companyId :: uuid
  ip_teamNumber :: int
  ip_leaderId :: uuid
  ip_status :: string

text \<open>
  \<open>partnerships\<close>:
  the check \<open>valid_team_number\<close> (\<open>team_number > 0 AND team_number <= 1000\<close>);
  \<open>unique_company_team\<close> on (company, team number);
  \<open>group_id\<close> \<open>UNIQUE\<close>;
  \<open>unique_active_leader_idx\<close> on (leader, company) where status is filling or complete;
  \<open>unique_filling_team_idx\<close> on (company) where status is filling;
  the foreign keys of \<open>company_id\<close> and \<open>leader_id\<close>.
  A row is inserted exactly when it breaks none of them.  For a row that breaks several the
  database names one; here it is the first in the order of the tests below.
\<close>

definition is_filling :: "partnership \<Rightarrow> bool" where
  "is_filling t = (status t = ''filling'')"

definition is_active :: "partnership \<Rightarrow> bool" where
  "is_active t = (status t = ''filling'' \<or> status t = ''complete'')"

definition insert_partnerships ::
  "insertPartnership \<Rightarrow> store \<Rightarrow> error + (partnership \<times> store)" where
  "insert_partnerships v s =
     (if \<not> (0 < ip_teamNumber v \<and> ip_teamNumber v \<le> 1000)
      then Inl (CheckViolation ''valid_team_number'')
      else if list_ex (\<lambda>t. companyId t = ip_companyId v \<and> teamNumber t = ip_teamNumber v)
                (partnerships s)
      then Inl (UniqueViolation ''unique_company_team'')
      else if list_ex (\<lambda>t. groupId t = ip_groupId v) (partnerships s)
      then Inl (UniqueViolation ''partnerships_group_id_unique'')
      else if (ip_status v = ''filling'' \<or> ip_status v = ''complete'') \<and>
              list_ex (\<lambda>t. is_active t \<and> leaderId t = ip_leaderId v \<and>
                             companyId t = ip_companyId v) (partnerships s)
      then Inl (UniqueViolation ''unique_active_leader_idx'')
      else if ip_status v = ''filling'' \<and>
              list_ex (\<lambda>t. is_filling t \<and> companyId t = ip_companyId v) (partnerships s)
      then Inl (UniqueViolation ''unique_filling_team_idx'')
      else if \<not> company_exists (ip_companyId v) s
      then Inl (ForeignKeyViolation ''partnerships_company_id_companies_id_fk'')
      else if \<not> user_exists (ip_leaderId v) s
      then Inl (ForeignKeyViolation ''partnerships_leader_id_users_id_fk'')
      else (let t = \<lparr>partnership_id = next_id s, groupId = ip_groupId v,
                       companyId = ip_companyId v, teamNumber = ip_teamNumber v,
                       leaderId = ip_leaderId v, status = ip_status v\<rparr>
            in Inr (t, s\<lparr>partnerships := partnerships s @ [t], next_id := Suc (next_id s)\<rparr>)))"

text \<open>
  \<open>partnership_members\<close>: both columns are foreign keys, and
  \<open>unique_partnership_user\<close> is on (partnership, user).
\<close>

definition has_membership :: "uuid \<Rightarrow> uuid \<Rightarrow> store \<Rightarrow> bool" where
  "has_membership pid uid s =
     list_ex (\<lambda>m. partnershipId m = pid \<and> userId m = uid) (partnershipMembers s)"

definition insert_partnershipMembers :: "uuid \<Rightarrow> uuid \<Rightarrow> store \<Rightarrow> error + store" where
  "insert_partnershipMembers pid uid s =
     (if has_membership pid uid s
      then Inl (UniqueViolation ''unique_partnership_user'')
      else if \<not> partnership_exists pid s
      then Inl (ForeignKeyViolation ''partnership_members_partnership_id_partnerships_id_fk'')
      else if \<not> user_exists uid s
      then Inl (ForeignKeyViolation ''partnership_members_user_id_users_id_fk'')
      else Inr (s\<lparr>partnershipMembers := partnershipMembers s @
                     [\<lparr>member_id = next_id s, partnershipId = pid, userId = uid\<rparr>],
                   next_id := Suc (next_id s)\<rparr>))"

section \<open>JavaScript numbers in the position formula\<close>

text \<open>
  \<open>groupSize\<close> comes from an integer column and \<open>userPosition\<close> is an array index plus
  one, so both are integers; the quotient of the formula is not, and division by zero does
  not raise in JavaScript: it gives \<open>NaN\<close> or an infinity.  \<open>js_floor_div a b\<close> is
  \<open>Math.floor(a / b)\<close> on integers \<open>a\<close> and \<open>b\<close>.
\<close>

datatype jsnum = Num int | PosInfinity | NegInfinity | NaN

definition js_floor_div :: "int \<Rightarrow> int \<Rightarrow> jsnum" where
  "js_floor_div a b =
     (if b = 0 then (if a = 0 then NaN else if 0 < a then PosInfinity else NegInfinity)
      else Num (a div b))"

fun js_plus :: "jsnum \<Rightarrow> int \<Rightarrow> jsnum" where
  "js_plus (Num a) b = Num (a + b)"
| "js_plus x b = x"

fun js_less :: "jsnum \<Rightarrow> int \<Rightarrow> bool" where
  "js_less (Num a) b = (a < b)"
| "js_less NegInfinity b = True"
| "js_less PosInfinity b = False"
| "js_less NaN b = False"

text \<open>The template literal \<open>${teamNumber}\<close> on an integer: its decimal digits.\<close>

definition digit_char :: "nat \<Rightarrow> char" where
  "digit_char d = ''0123456789'' ! d"

fun nat_to_string :: "nat \<Rightarrow> string" where
  "nat_to_string n =
     (if n < 10 then [digit_char n]
      else nat_to_string (n div 10) @ [digit_char (n mod 10)])"

definition number_to_string :: "int \<Rightarrow> string" where
  "number_to_string i =
     (if i < 0 then CHR ''-'' # nat_to_string (nat (- i)) else nat_to_string (nat i))"

declare nat_to_string.simps [simp del]

section \<open>The assignment engine (server/storage.ts)\<close>

subsection \<open>Queries\<close>

definition getCompanyById :: "uuid \<Rightarrow> store \<Rightarrow> company option" where
  "getCompanyById cid s = find (\<lambda>c. company_id c = cid) (companies s)"

text \<open>\<open>select().from(users).where(eq(users.companyId, companyId)).orderBy(asc(users.createdAt))\<close>\<close>

definition usersByCompany :: "uuid \<Rightarrow> store \<Rightarrow> user list" where
  "usersByCompany cid s = filter (\<lambda>u. user_companyId u = Some cid) (users s)"

text \<open>\<open>Array.prototype.findIndex\<close>: the index of the first match, or \<open>-1\<close>.\<close>

fun findIndex :: "('a \<Rightarrow> bool) \<Rightarrow> 'a list \<Rightarrow> int" where
  "findIndex P [] = - 1"
| "findIndex P (x # xs) =
     (if P x then 0 else (let i = findIndex P xs in if i = - 1 then - 1 else i + 1))"

text \<open>
  The first row of
  \<open>select().from(partnerships).where(and(eq(companyId, ...), eq(teamNumber, ...)))\<close>.
\<close>

definition selectTeam :: "uuid \<Rightarrow> int \<Rightarrow> store \<Rightarrow> partnership option" where
  "selectTeam cid n s = find (\<lambda>t. companyId t = cid \<and> teamNumber t = n) (partnerships s)"

subsection \<open>\<open>ensureUserInTeam\<close>\<close>

text \<open>
  \<open>ensureUserInTeam_found\<close> is the body of \<open>ensureUserInTeam\<close> from \<open>let teamId\<close> on, with
  the row the select returned as \<open>existingTeam\<close>: the team insert is not inside any
  \<open>try\<close>, so its error leaves the function; the membership insert is, and its \<open>catch\<close>
  only logs, whatever the error.  The flag \<open>isLeader\<close> is never read.
\<close>

definition ensureUserInTeam_found ::
  "partnership option \<Rightarrow> uuid \<Rightarrow> int \<Rightarrow> uuid \<Rightarrow> bool \<Rightarrow> store \<Rightarrow> error + store" where
  "ensureUserInTeam_found existingTeam uid n cid isLeader s =
     (case (case existingTeam of
              None \<Rightarrow>
                (case insert_partnerships
                        \<lparr>ip_groupId = ''MAKECENTSGRO-T'' @ number_to_string n,
                         ip_companyId = cid, ip_teamNumber = n, ip_leaderId = uid,
                         ip_status = ''filling''\<rparr> s of
                   Inl e \<Rightarrow> Inl e
                 | Inr (newTeam, s1) \<Rightarrow> Inr (partnership_id newTeam, s1))
            | Some t \<Rightarrow> Inr (partnership_id t, s)) of
        Inl e \<Rightarrow> Inl e
      | Inr (teamId, s1) \<Rightarrow>
          (case insert_partnershipMembers teamId uid s1 of
             Inl e \<Rightarrow> Inr s1
           | Inr s2 \<Rightarrow> Inr s2))"

text \<open>
  The team number reaches the select as a query parameter for an integer column; one that is
  not an integer (an infinity) is refused by the database.
\<close>

definition ensureUserInTeam :: "uuid \<Rightarrow> jsnum \<Rightarrow> uuid \<Rightarrow> bool \<Rightarrow> store \<Rightarrow> error + store" where
  "ensureUserInTeam uid tn cid isLeader s =
     (case tn of
        Num n \<Rightarrow> ensureUserInTeam_found (selectTeam cid n s) uid n cid isLeader s
      | _ \<Rightarrow> Inl InvalidIntegerInput)"

subsection \<open>\<open>assignUserToTeam\<close>\<close>

definition leadershipTeamNumber :: "int \<Rightarrow> int" where
  "leadershipTeamNumber userPosition = userPosition"

definition membershipTeamNumber :: "int \<Rightarrow> int \<Rightarrow> jsnum" where
  "membershipTeamNumber userPosition g = js_plus (js_floor_div (userPosition - 1) (g - 1)) 1"

definition userPosition :: "uuid \<Rightarrow> uuid \<Rightarrow> store \<Rightarrow> int" where
  "userPosition uid cid s = findIndex (\<lambda>u. user_id u = uid) (usersByCompany cid s) + 1"

text \<open>
  \<open>ensureUserInTeam\<close> throws only before the first write of its own, and every statement
  is issued through \<open>db\<close> and committed as it is made: when \<open>assignUserToTeam\<close> throws,
  the error comes with the store that the statements before it have left.
\<close>

definition assignUserToTeam :: "uuid \<Rightarrow> uuid \<Rightarrow> store \<Rightarrow> (error \<times> store) + store" where
  "assignUserToTeam uid cid s =
     (case getCompanyById cid s of
        None \<Rightarrow> Inl (CompanyNotFound, s)
      | Some c \<Rightarrow>
          (let p = userPosition uid cid s;
               l = leadershipTeamNumber p;
               m = membershipTeamNumber p (groupSize c)
           in case (if js_less m l then ensureUserInTeam uid m cid False s else Inr s) of
                Inl e \<Rightarrow> Inl (e, s)
              | Inr s1 \<Rightarrow>
                  (case ensureUserInTeam uid (Num l) cid True s1 of
                     Inl e \<Rightarrow> Inl (e, s1)
                   | Inr s2 \<Rightarrow> Inr s2)))"

subsection \<open>\<open>createUser\<close>\<close>

text \<open>
  The user row is inserted through the transaction \<open>tx\<close>; \<open>assignUserToTeam\<close> issues
  every statement through \<open>db\<close>, on another connection of the pool, which does not see
  the row as long as the transaction is open.  So the engine runs on the store without the
  new row (the key of the row is taken).  When it returns, the transaction commits and the
  row is added to what the engine has left; when it throws, the row is dropped, and what
  the engine has written through \<open>db\<close> stays.
\<close>

definition createUser :: "insertUser \<Rightarrow> store \<Rightarrow> (error + user) \<times> store" where
  "createUser v s =
     (case insert_users v s of
        Inl e \<Rightarrow> (Inl e, s)
      | Inr (u, s1) \<Rightarrow>
          (case user_companyId u of
             None \<Rightarrow> (Inr u, s1)
           | Some cid \<Rightarrow>
               (case assignUserToTeam (user_id u) cid (s\<lparr>next_id := next_id s1\<rparr>) of
                  Inl (e, sd) \<Rightarrow> (Inl e, sd)
                | Inr sd \<Rightarrow> (Inr u, sd\<lparr>users := users sd @ [u]\<rparr>))))"

section \<open>Setting the team size (server/routes.ts)\<close>

definition updateCompanyGroupSize :: "uuid \<Rightarrow> int \<Rightarrow> store \<Rightarrow> store" where
  "updateCompanyGroupSize cid g s =
     s\<lparr>companies := map (\<lambda>c. if company_id c = cid then c\<lparr>groupSize := g\<rparr> else c)
                        (companies s)\<rparr>"

text \<open>
  The value of \<open>groupSize\<close> in the body of the request, as the handler receives it from the
  JSON parser.  A number is an integer, a non-integer between an integer and the next, or
  an infinity (a literal too large for a double).  A string comes with what JavaScript's
  conversion to a number makes of it and with what the integer column reads from it (nothing
  when the database refuses it); an array or an object comes with its conversion to a number.
\<close>

datatype jnumber = Whole int | Between int | Infinite bool | NotANumber

datatype json =
    JAbsent
  | JBool bool
  | JNumber jnumber
  | JString string jnumber "int option"
  | JObject jnumber

fun jn_less :: "jnumber \<Rightarrow> int \<Rightarrow> bool" where
  "jn_less (Whole a) b = (a < b)"
| "jn_less (Between k) b = (k < b)"
| "jn_less (Infinite positive) b = (\<not> positive)"
| "jn_less NotANumber b = False"

fun jn_greater :: "jnumber \<Rightarrow> int \<Rightarrow> bool" where
  "jn_greater (Whole a) b = (b < a)"
| "jn_greater (Between k) b = (b \<le> k)"
| "jn_greater (Infinite positive) b = positive"
| "jn_greater NotANumber b = False"

text \<open>\<open>!groupSize\<close>: absent, null, false, zero, \<open>NaN\<close> and the empty string.\<close>

fun falsy :: "json \<Rightarrow> bool" where
  "falsy JAbsent = True"
| "falsy (JBool b) = (\<not> b)"
| "falsy (JNumber n) = (n = Whole 0 \<or> n = NotANumber)"
| "falsy (JString str n d) = (str = [])"
| "falsy (JObject n) = False"

fun toNumber :: "json \<Rightarrow> jnumber" where
  "toNumber JAbsent = NotANumber"
| "toNumber (JBool b) = Whole (if b then 1 else 0)"
| "toNumber (JNumber n) = n"
| "toNumber (JString str n d) = n"
| "toNumber (JObject n) = n"

text \<open>What the column \<open>group_size\<close> reads from the value passed as parameter of the update.\<close>

fun column_integer :: "json \<Rightarrow> int option" where
  "column_integer (JNumber (Whole n)) =
     (if - 2147483648 \<le> n \<and> n \<le> 2147483647 then Some n else None)"
| "column_integer (JString str n d) = d"
| "column_integer v = None"

text \<open>
  \<open>PATCH /api/companies/:id/group-size\<close>: the HTTP status and the store afterwards.  The
  test is \<open>!groupSize || groupSize < 2 || groupSize > 10\<close>; an error of the update is
  answered with 500.
\<close>

definition patch_group_size :: "uuid \<Rightarrow> json \<Rightarrow> store \<Rightarrow> nat \<times> store" where
  "patch_group_size cid body s =
     (if falsy body \<or> jn_less (toNumber body) 2 \<or> jn_greater (toNumber body) 10
      then (400, s)
      else (case column_integer body of
              None \<Rightarrow> (500, s)
            | Some g \<Rightarrow> (200, updateCompanyGroupSize cid g s)))"

section \<open>Predicates on the store\<close>

text \<open>The user has a membership row in the team that the company has under the number.\<close>

definition is_member :: "uuid \<Rightarrow> uuid \<Rightarrow> int \<Rightarrow> store \<Rightarrow> bool" where
  "is_member uid cid n s =
     (case selectTeam cid n s of
        None \<Rightarrow> False
      | Some t \<Rightarrow> has_membership (partnership_id t) uid s)"

definition membership_rows :: "uuid \<Rightarrow> uuid \<Rightarrow> store \<Rightarrow> partnershipMember list" where
  "membership_rows pid uid s =
     filter (\<lambda>m. partnershipId m = pid \<and> userId m = uid) (partnershipMembers s)"

text \<open>No two membership rows have the same (partnership, user).\<close>

definition members_unique :: "store \<Rightarrow> bool" where
  "members_unique s =
     distinct (map (\<lambda>m. (partnershipId m, userId m)) (partnershipMembers s))"

text \<open>No two rows of status filling have the same company.\<close>

definition filling_unique :: "store \<Rightarrow> bool" where
  "filling_unique s = distinct (map companyId (filter is_filling (partnerships s)))"

text \<open>Every team has a membership row for its leader.\<close>

definition leaders_are_members :: "store \<Rightarrow> bool" where
  "leaders_are_members s =
     list_all (\<lambda>t. has_membership (partnership_id t) (leaderId t) s) (partnerships s)"

subsection \<open>Requests that change the store\<close>

datatype request =
    PostCompany insertCompany
  | PostUser insertUser
  | PatchGroupSize uuid json

fun handle :: "request \<Rightarrow> store \<Rightarrow> store" where
  "handle (PostCompany v) s = (case createCompany v s of Inl e \<Rightarrow> s | Inr (c, s') \<Rightarrow> s')"
| "handle (PostUser v) s = snd (createUser v s)"
| "handle (PatchGroupSize cid body) s = snd (patch_group_size cid body s)"

fun run :: "request list \<Rightarrow> store \<Rightarrow> store" where
  "run [] s = s"
| "run (r # rs) s = run rs (handle r s)"

subsection \<open>Relations between a store and a later one\<close>

text \<open>The engine only appends rows to the two team tables.\<close>

definition extends :: "store \<Rightarrow> store \<Rightarrow> bool" where
  "extends s s' =
     (companies s' = companies s \<and> users s' = users s \<and>
      (\<exists>ts. partnerships s' = partnerships s @ ts) \<and>
      (\<exists>ms. partnershipMembers s' = partnershipMembers s @ ms))"

text \<open>The guarded membership insert: the row is inserted, or the error is dropped.\<close>

definition member_step :: "uuid \<Rightarrow> uuid \<Rightarrow> store \<Rightarrow> store \<Rightarrow> bool" where
  "member_step pid uid s s' =
     (insert_partnershipMembers pid uid s = Inr s' \<or>
      ((\<exists>e. insert_partnershipMembers pid uid s = Inl e) \<and> s' = s))"

section \<open>Calling the engine in join order\<close>

text \<open>
  \<open>assignUserToTeam\<close> called for one user after the other, each with its row in the store.
  Whether a call returns or throws, the next one finds the store that its statements left.
\<close>

fun left_by :: "(error \<times> store) + store \<Rightarrow> store" where
  "left_by (Inl (e, s)) = s"
| "left_by (Inr s) = s"

fun engine_run :: "uuid list \<Rightarrow> uuid \<Rightarrow> store \<Rightarrow> store" where
  "engine_run [] cid s = s"
| "engine_run (u # us) cid s = engine_run us cid (left_by (assignUserToTeam u cid s))"

text \<open>The users of a company in the order of the table, which is the order of joining.\<close>

definition joined_ids :: "uuid \<Rightarrow> store \<Rightarrow> uuid list" where
  "joined_ids cid s = map user_id (filter (\<lambda>u. user_companyId u = Some cid) (users s))"

text \<open>The users with a membership row in the team that the company has under the number.\<close>

definition team_members :: "uuid \<Rightarrow> int \<Rightarrow> store \<Rightarrow> uuid list" where
  "team_members cid n s =
     (case selectTeam cid n s of
        None \<Rightarrow> []
      | Some t \<Rightarrow>
          map userId (filter (\<lambda>m. partnershipId m = partnership_id t) (partnershipMembers s)))"

text \<open>
  The company has one team, of number 1, filling, with the given leader, and the membership
  rows of the store are those of the given users in that team, in this order.
\<close>

definition first_team_only :: "uuid \<Rightarrow> uuid \<Rightarrow> uuid list \<Rightarrow> store \<Rightarrow> bool" where
  "first_team_only cid leader ms s =
     (\<exists>t. partnerships s = [t] \<and> companyId t = cid \<and> teamNumber t = 1 \<and>
          leaderId t = leader \<and> status t = ''filling'' \<and>
          map (\<lambda>m. (partnershipId m, userId m)) (partnershipMembers s) =
            map (\<lambda>u. (partnership_id t, u)) ms)"

section \<open>Stores of the scenarios\<close>

text \<open>
  Company X (id 0) has team size 4.  In \<open>store_ABC\<close> the users A, B and C (ids 1, 2, 3)
  are in their teams, which are complete; \<open>store_ABCD\<close> has the row of user D (id 20) as
  well, not yet assigned.
\<close>

definition companyX :: company where
  "companyX = \<lparr>company_id = 0, company_name = ''X'', groupSize = 4\<rparr>"

definition store_ABC :: store where
  "store_ABC =
     \<lparr>companies = [companyX],
      users = [\<lparr>user_id = 1, email = ''a@x'', user_companyId = Some 0\<rparr>,
               \<lparr>user_id = 2, email = ''b@x'', user_companyId = Some 0\<rparr>,
               \<lparr>user_id = 3, email = ''c@x'', user_companyId = Some 0\<rparr>],
      partnerships =
        [\<lparr>partnership_id = 10, groupId = ''MAKECENTSGRO-T1'', companyId = 0, teamNumber = 1,
          leaderId = 1, status = ''complete''\<rparr>,
         \<lparr>partnership_id = 11, groupId = ''MAKECENTSGRO-T2'', companyId = 0, teamNumber = 2,
          leaderId = 2, status = ''complete''\<rparr>,
         \<lparr>partnership_id = 12, groupId = ''MAKECENTSGRO-T3'', companyId = 0, teamNumber = 3,
          leaderId = 3, status = ''complete''\<rparr>],
      partnershipMembers =
        [\<lparr>member_id = 13, partnershipId = 10, userId = 1\<rparr>,
         \<lparr>member_id = 14, partnershipId = 10, userId = 2\<rparr>,
         \<lparr>member_id = 15, partnershipId = 11, userId = 2\<rparr>,
         \<lparr>member_id = 16, partnershipId = 10, userId = 3\<rparr>,
         \<lparr>member_id = 17, partnershipId = 12, userId = 3\<rparr>],
      next_id = 20\<rparr>"

definition store_ABCD :: store where
  "store_ABCD =
     store_ABC\<lparr>users := users store_ABC @
                   [\<lparr>user_id = 20, email = ''d@x'', user_companyId = Some 0\<rparr>],
                next_id := 21\<rparr>"

text \<open>Requests that create company X and two users of it.\<close>

definition newX :: insertCompany where
  "newX = \<lparr>ic_name = ''X'', ic_groupSize = Some 4\<rparr>"

definition userA :: insertUser where
  "userA = \<lparr>iu_email = ''a@x'', iu_companyId = Some 0\<rparr>"

definition userB :: insertUser where
  "userB = \<lparr>iu_email = ''b@x'', iu_companyId = Some 0\<rparr>"

text \<open>
  Company X with the rows of its users A, B, C, D, E (ids 1, 3, 4, 5, 6) and, between A and
  B, of a user of no company (id 2); no team yet.
\<close>

definition store_five :: store where
  "store_five =
     \<lparr>companies = [companyX],
      users = [\<lparr>user_id = 1, email = ''a@x'', user_companyId = Some 0\<rparr>,
               \<lparr>user_id = 2, email = ''n@n'', user_companyId = None\<rparr>,
               \<lparr>user_id = 3, email = ''b@x'', user_companyId = Some 0\<rparr>,
               \<lparr>user_id = 4, email = ''c@x'', user_companyId = Some 0\<rparr>,
               \<lparr>user_id = 5, email = ''d@x'', user_companyId = Some 0\<rparr>,
               \<lparr>user_id = 6, email = ''e@x'', user_companyId = Some 0\<rparr>],
      partnerships = [], partnershipMembers = [], next_id = 10\<rparr>"

text \<open>
  Companies X (id 0) and Y (id 1), both of team size 4, with the rows of the first user of
  each (ids 2 and 3); no team yet.
\<close>

definition store_XY :: store where
  "store_XY =
     \<lparr>companies = [companyX, \<lparr>company_id = 1, company_name = ''Y'', groupSize = 4\<rparr>],
      users = [\<lparr>user_id = 2, email = ''a@x'', user_companyId = Some 0\<rparr>,
               \<lparr>user_id = 3, email = ''a@y'', user_companyId = Some 1\<rparr>],
      partnerships = [], partnershipMembers = [], next_id = 4\<rparr>"



section \<open>Auxiliary lemmas\<close>

lemma find_append_first:
  "find P (xs @ ys) = (case find P xs of None \<Rightarrow> find P ys | Some x \<Rightarrow> Some x)"
  by (induction xs) auto

lemma insert_partnershipMembers_Inr:
  "insert_partnershipMembers pid uid s = Inr s' \<Longrightarrow>
     s' = s\<lparr>partnershipMembers := partnershipMembers s @
              [\<lparr>member_id = next_id s, partnershipId = pid, userId = uid\<rparr>],
            next_id := Suc (next_id s)\<rparr> \<and> \<not> has_membership pid uid s"
  by (simp add: insert_partnershipMembers_def split: if_splits)

lemma insert_partnershipMembers_Inl:
  "insert_partnershipMembers pid uid s = Inl e \<Longrightarrow> partnership_exists pid s \<Longrightarrow>
     user_exists uid s \<Longrightarrow> has_membership pid uid s"
  by (simp add: insert_partnershipMembers_def split: if_splits)

lemma insert_partnerships_Inr:
  "insert_partnerships v s = Inr (t, s') \<Longrightarrow>
     t = \<lparr>partnership_id = next_id s, groupId = ip_groupId v,
          companyId = ip_companyId v, teamNumber = ip_teamNumber v,
          leaderId = ip_leaderId v, status = ip_status v\<rparr> \<and>
     s' = s\<lparr>partnerships := partnerships s @ [t], next_id := Suc (next_id s)\<rparr> \<and>
     user_exists (ip_leaderId v) s \<and>
     \<not> (ip_status v = ''filling'' \<and>
        list_ex (\<lambda>t. is_filling t \<and> companyId t = ip_companyId v) (partnerships s))"
  by (auto simp add: insert_partnerships_def Let_def split: if_splits)

lemma extends_refl: "extends s s"
  by (simp add: extends_def)

lemma ensureUserInTeam_found_extends:
  "ensureUserInTeam_found et uid n cid b s = Inr s' \<Longrightarrow> extends s s'"
  by (auto simp: ensureUserInTeam_found_def extends_def split: option.splits sum.splits
      dest!: insert_partnerships_Inr insert_partnershipMembers_Inr)

lemma ensureUserInTeam_extends:
  "ensureUserInTeam uid tn cid b s = Inr s' \<Longrightarrow> extends s s'"
  by (auto simp: ensureUserInTeam_def split: jsnum.splits dest: ensureUserInTeam_found_extends)

lemma selectTeam_extends:
  "extends s s' \<Longrightarrow> selectTeam cid n s = Some t \<Longrightarrow> selectTeam cid n s' = Some t"
  by (auto simp: extends_def selectTeam_def find_append_first)

lemma has_membership_extends:
  "extends s s' \<Longrightarrow> has_membership pid uid s \<Longrightarrow> has_membership pid uid s'"
  by (auto simp: extends_def has_membership_def list_ex_iff)

lemma user_exists_extends: "extends s s' \<Longrightarrow> user_exists uid s' = user_exists uid s"
  by (simp add: extends_def user_exists_def)

lemma selectTeam_Some_exists:
  "selectTeam cid n s = Some t \<Longrightarrow> partnership_exists (partnership_id t) s"
  by (auto simp: selectTeam_def partnership_exists_def list_ex_iff find_Some_iff)

lemma found_Some_step:
  "ensureUserInTeam_found (Some t) uid n cid b s = Inr s' \<Longrightarrow>
     member_step (partnership_id t) uid s s'"
  by (auto simp: ensureUserInTeam_found_def member_step_def split: sum.splits)

lemma found_None_step:
  "ensureUserInTeam_found None uid n cid b s = Inr s' \<Longrightarrow>
     \<exists>t s1. insert_partnerships \<lparr>ip_groupId = ''MAKECENTSGRO-T'' @ number_to_string n,
                ip_companyId = cid, ip_teamNumber = n, ip_leaderId = uid,
                ip_status = ''filling''\<rparr> s = Inr (t, s1) \<and>
            member_step (partnership_id t) uid s1 s'"
  by (auto simp: ensureUserInTeam_found_def member_step_def split: sum.splits)

lemma member_step_has:
  "member_step pid uid s s' \<Longrightarrow> partnership_exists pid s \<Longrightarrow> user_exists uid s \<Longrightarrow>
     has_membership pid uid s'"
  by (auto simp: member_step_def has_membership_def
      dest: insert_partnershipMembers_Inl dest!: insert_partnershipMembers_Inr)

lemma member_step_extends: "member_step pid uid s s' \<Longrightarrow> extends s s'"
  by (auto simp: member_step_def extends_def dest!: insert_partnershipMembers_Inr)

lemma ensureUserInTeam_is_member:
  assumes "ensureUserInTeam uid (Num n) cid b s = Inr s'" and "user_exists uid s"
  shows "is_member uid cid n s'"
proof (cases "selectTeam cid n s")
  case (Some t)
  from assms(1) Some have st: "member_step (partnership_id t) uid s s'"
    by (simp add: ensureUserInTeam_def found_Some_step)
  have sel: "selectTeam cid n s' = Some t"
    using member_step_extends[OF st] Some by (rule selectTeam_extends)
  have "has_membership (partnership_id t) uid s'"
    using st selectTeam_Some_exists[OF Some] assms(2) by (rule member_step_has)
  with sel show ?thesis by (simp add: is_member_def)
next
  case None
  let ?v = "\<lparr>ip_groupId = ''MAKECENTSGRO-T'' @ number_to_string n,
                         ip_companyId = cid, ip_teamNumber = n, ip_leaderId = uid,
                         ip_status = ''filling''\<rparr>"
  from assms(1) None have "ensureUserInTeam_found None uid n cid b s = Inr s'"
    by (simp add: ensureUserInTeam_def)
  from found_None_step[OF this] obtain t s1 where ins: "insert_partnerships ?v s = Inr (t, s1)"
    and st: "member_step (partnership_id t) uid s1 s'" by blast
  note i = insert_partnerships_Inr[OF ins]
  have t: "companyId t = cid" "teamNumber t = n" using i by simp_all
  have s1: "partnerships s1 = partnerships s @ [t]" "users s1 = users s" using i by simp_all
  have sel1: "selectTeam cid n s1 = Some t"
    using None t s1 by (simp add: selectTeam_def find_append_first)
  have pe: "partnership_exists (partnership_id t) s1"
    using sel1 by (rule selectTeam_Some_exists)
  have ue: "user_exists uid s1" using assms(2) s1 by (simp add: user_exists_def)
  have "has_membership (partnership_id t) uid s'" using st pe ue by (rule member_step_has)
  moreover have "selectTeam cid n s' = Some t"
    using member_step_extends[OF st] sel1 by (rule selectTeam_extends)
  ultimately show ?thesis by (simp add: is_member_def)
qed

lemma findIndex_found: "0 \<le> findIndex P xs \<Longrightarrow> \<exists>x\<in>set xs. P x"
  by (induction xs) (auto simp: Let_def split: if_splits)

lemma findIndex_nth:
  "i < length xs \<Longrightarrow> P (xs ! i) \<Longrightarrow> \<forall>j<i. \<not> P (xs ! j) \<Longrightarrow> findIndex P xs = int i"
proof (induction xs arbitrary: i)
  case Nil
  then show ?case by simp
next
  case (Cons x xs)
  show ?case
  proof (cases i)
    case 0
    with Cons.prems show ?thesis by simp
  next
    case (Suc k)
    with Cons.prems have k: "k < length xs" "P (xs ! k)" by simp_all
    have nk: "\<forall>j<k. \<not> P (xs ! j)"
    proof (intro allI impI)
      fix j assume "j < k"
      then have "Suc j < i" using Suc by simp
      with Cons.prems(3) have "\<not> P ((x # xs) ! Suc j)" by blast
      then show "\<not> P (xs ! j)" by simp
    qed
    have nx: "\<not> P x" using Cons.prems(3) Suc by force
    have "findIndex P xs = int k" using k nk by (rule Cons.IH)
    with nx show ?thesis using Suc by (simp add: Let_def)
  qed
qed

lemma findIndex_distinct:
  assumes "distinct (map f xs)" and "i < length xs"
  shows "findIndex (\<lambda>x. f x = f (xs ! i)) xs = int i"
proof (rule findIndex_nth[OF assms(2)])
  show "f (xs ! i) = f (xs ! i)" by simp
  show "\<forall>j<i. f (xs ! j) \<noteq> f (xs ! i)"
    using assms by (auto simp: distinct_conv_nth)
qed

lemma usersByCompany_distinct:
  "distinct (map user_id (users s)) \<Longrightarrow> distinct (map user_id (usersByCompany cid s))"
  by (simp add: usersByCompany_def distinct_map_filter)

lemma userPosition_nth:
  assumes "distinct (map user_id (users s))" and "1 \<le> p" and "p \<le> length (usersByCompany cid s)"
    and "user_id (usersByCompany cid s ! (p - 1)) = uid"
  shows "userPosition uid cid s = int p"
proof -
  have "findIndex (\<lambda>u. user_id u = user_id (usersByCompany cid s ! (p - 1))) (usersByCompany cid s)
        = int (p - 1)"
    using usersByCompany_distinct[OF assms(1)] assms(2,3) by (intro findIndex_distinct) auto
  with assms(2,4) show ?thesis by (simp add: userPosition_def)
qed

lemma userPosition_exists: "1 \<le> userPosition uid cid s \<Longrightarrow> user_exists uid s"
proof -
  assume "1 \<le> userPosition uid cid s"
  then have "0 \<le> findIndex (\<lambda>u. user_id u = uid) (usersByCompany cid s)"
    by (simp add: userPosition_def)
  then obtain u where "u \<in> set (usersByCompany cid s)" "user_id u = uid"
    using findIndex_found by blast
  then show ?thesis by (auto simp: user_exists_def usersByCompany_def list_ex_iff)
qed

lemma membershipTeamNumber_Num:
  "g \<noteq> 1 \<Longrightarrow> membershipTeamNumber p g = Num ((p - 1) div (g - 1) + 1)"
  by (simp add: membershipTeamNumber_def js_floor_div_def)

text \<open>The definitions to unfold when the engine is run on a concrete store.\<close>

lemmas store_defs = store_ABCD_def store_ABC_def companyX_def
lemmas engine_defs = createUser_def insert_users_def company_exists_def assignUserToTeam_def
  getCompanyById_def userPosition_def usersByCompany_def leadershipTeamNumber_def
  membershipTeamNumber_def js_floor_div_def ensureUserInTeam_def ensureUserInTeam_found_def
  selectTeam_def insert_partnerships_def insert_partnershipMembers_def has_membership_def
  partnership_exists_def user_exists_def number_to_string_def nat_to_string.simps
  digit_char_def Let_def
  is_filling_def is_active_def is_member_def
lemmas run_defs = joined_ids_def team_members_def

subsection \<open>What each step leaves unchanged\<close>

lemma member_step_partnerships: "member_step pid uid s s' \<Longrightarrow> partnerships s' = partnerships s"
  by (auto simp: member_step_def dest!: insert_partnershipMembers_Inr)

lemma insert_users_partnerships:
  "insert_users v s = Inr (u, s') \<Longrightarrow>
     partnerships s' = partnerships s \<and> partnershipMembers s' = partnershipMembers s"
  by (auto simp: insert_users_def Let_def split: if_splits)

subsection \<open>One filling team for each company\<close>

lemma insert_partnerships_filling:
  assumes "insert_partnerships v s = Inr (t, s')" and "filling_unique s"
  shows "filling_unique s'"
proof -
  note i = insert_partnerships_Inr[OF assms(1)]
  have ps: "partnerships s' = partnerships s @ [t]" using i by simp
  have st: "status t = ip_status v" and co: "companyId t = ip_companyId v" using i by simp_all
  have no: "is_filling t \<Longrightarrow>
      companyId t \<notin> set (map companyId (filter is_filling (partnerships s)))"
    using i st co by (auto simp: is_filling_def list_ex_iff)
  show ?thesis using assms(2) no by (auto simp: filling_unique_def ps)
qed

lemma ensureUserInTeam_found_filling:
  assumes "ensureUserInTeam_found et uid n cid b s = Inr s'" and "filling_unique s"
  shows "filling_unique s'"
proof (cases et)
  case (Some t)
  with assms(1) have "member_step (partnership_id t) uid s s'" by (simp add: found_Some_step)
  then have "partnerships s' = partnerships s" by (rule member_step_partnerships)
  with assms(2) show ?thesis by (simp add: filling_unique_def)
next
  case None
  with assms(1) obtain t s1 v where ins: "insert_partnerships v s = Inr (t, s1)"
    and st: "member_step (partnership_id t) uid s1 s'"
    using found_None_step by blast
  have "filling_unique s1" using ins assms(2) by (rule insert_partnerships_filling)
  moreover have "partnerships s' = partnerships s1" using st by (rule member_step_partnerships)
  ultimately show ?thesis by (simp add: filling_unique_def)
qed

lemma ensureUserInTeam_filling:
  "ensureUserInTeam uid tn cid b s = Inr s' \<Longrightarrow> filling_unique s \<Longrightarrow> filling_unique s'"
  by (auto simp: ensureUserInTeam_def split: jsnum.splits dest: ensureUserInTeam_found_filling)

text \<open>A returning assignment is one or two returning ensure operations.\<close>

lemma assignUserToTeam_steps:
  assumes "assignUserToTeam uid cid s = Inr s'"
  shows "\<exists>s1. (s1 = s \<or> (\<exists>tn. ensureUserInTeam uid tn cid False s = Inr s1)) \<and>
              ensureUserInTeam uid (Num (userPosition uid cid s)) cid True s1 = Inr s'"
proof (cases "getCompanyById cid s")
  case None
  with assms show ?thesis by (simp add: assignUserToTeam_def)
next
  case (Some c)
  let ?p = "userPosition uid cid s"
  let ?m = "membershipTeamNumber ?p (groupSize c)"
  show ?thesis
  proof (cases "js_less ?m ?p")
    case False
    with assms Some have "ensureUserInTeam uid (Num ?p) cid True s = Inr s'"
      by (simp add: assignUserToTeam_def Let_def leadershipTeamNumber_def split: sum.splits)
    then show ?thesis by blast
  next
    case True
    show ?thesis
    proof (cases "ensureUserInTeam uid ?m cid False s")
      case (Inl e)
      with assms Some True show ?thesis
        by (simp add: assignUserToTeam_def Let_def leadershipTeamNumber_def)
    next
      case (Inr s1)
      with assms Some True have "ensureUserInTeam uid (Num ?p) cid True s1 = Inr s'"
        by (simp add: assignUserToTeam_def Let_def leadershipTeamNumber_def split: sum.splits)
      with Inr show ?thesis by blast
    qed
  qed
qed

text \<open>A throwing assignment leaves the store as it was, or as the first ensure operation left it.\<close>

lemma assignUserToTeam_left:
  assumes "assignUserToTeam uid cid s = Inl (e, sd)"
  shows "sd = s \<or> (\<exists>tn. ensureUserInTeam uid tn cid False s = Inr sd)"
proof (cases "getCompanyById cid s")
  case None
  with assms show ?thesis by (simp add: assignUserToTeam_def)
next
  case (Some c)
  let ?p = "userPosition uid cid s"
  let ?m = "membershipTeamNumber ?p (groupSize c)"
  show ?thesis
  proof (cases "js_less ?m ?p")
    case False
    with assms Some show ?thesis
      by (simp add: assignUserToTeam_def Let_def leadershipTeamNumber_def split: sum.splits)
  next
    case True
    show ?thesis
    proof (cases "ensureUserInTeam uid ?m cid False s")
      case (Inl e')
      with assms Some True show ?thesis
        by (simp add: assignUserToTeam_def Let_def leadershipTeamNumber_def)
    next
      case (Inr s1)
      with assms Some True have "sd = s1"
        by (simp add: assignUserToTeam_def Let_def leadershipTeamNumber_def split: sum.splits)
      with Inr show ?thesis by blast
    qed
  qed
qed

lemma assignUserToTeam_filling:
  assumes "assignUserToTeam uid cid s = Inr s'" and "filling_unique s"
  shows "filling_unique s'"
proof -
  from assignUserToTeam_steps[OF assms(1)] obtain s1 where
    a: "s1 = s \<or> (\<exists>tn. ensureUserInTeam uid tn cid False s = Inr s1)" and
    b: "ensureUserInTeam uid (Num (userPosition uid cid s)) cid True s1 = Inr s'" by blast
  from a assms(2) have "filling_unique s1" by (auto dest: ensureUserInTeam_filling)
  with b show ?thesis by (rule ensureUserInTeam_filling)
qed

lemma assignUserToTeam_left_filling:
  assumes "assignUserToTeam uid cid s = Inl (e, sd)" and "filling_unique s"
  shows "filling_unique sd"
  using assignUserToTeam_left[OF assms(1)] assms(2) by (auto dest: ensureUserInTeam_filling)

lemma createUser_filling:
  assumes "filling_unique s"
  shows "filling_unique (snd (createUser v s))"
proof (cases "insert_users v s")
  case (Inl e)
  with assms show ?thesis by (simp add: createUser_def)
next
  case (Inr r)
  obtain u s1 where r: "r = (u, s1)" by (cases r)
  have f1: "filling_unique s1"
    using insert_users_partnerships[OF Inr[unfolded r]] assms by (simp add: filling_unique_def)
  have f0: "filling_unique (s\<lparr>next_id := next_id s1\<rparr>)"
    using assms by (simp add: filling_unique_def)
  show ?thesis
  proof (cases "user_companyId u")
    case None
    with Inr r f1 show ?thesis by (simp add: createUser_def)
  next
    case (Some cid)
    show ?thesis
    proof (cases "assignUserToTeam (user_id u) cid (s\<lparr>next_id := next_id s1\<rparr>)")
      case (Inl x)
      obtain e sd where x: "x = (e, sd)" by (cases x)
      have "filling_unique sd" using Inl[unfolded x] f0 by (rule assignUserToTeam_left_filling)
      with \<open>insert_users v s = Inr r\<close> r Some Inl x show ?thesis by (simp add: createUser_def)
    next
      case (Inr sd)
      then have "filling_unique sd" using f0 by (rule assignUserToTeam_filling)
      then have "filling_unique (sd\<lparr>users := users sd @ [u]\<rparr>)" by (simp add: filling_unique_def)
      with \<open>insert_users v s = Inr r\<close> r Some Inr show ?thesis by (simp add: createUser_def)
    qed
  qed
qed

lemma createCompany_partnerships:
  "createCompany v s = Inr (c, s') \<Longrightarrow> partnerships s' = partnerships s"
  by (auto simp: createCompany_def Let_def split: if_splits)

lemma handle_filling: "filling_unique s \<Longrightarrow> filling_unique (handle r s)"
proof (cases r)
  case (PostCompany v)
  assume f: "filling_unique s"
  show ?thesis
  proof (cases "createCompany v s")
    case (Inl e)
    with f PostCompany show ?thesis by simp
  next
    case (Inr x)
    obtain c s' where x: "x = (c, s')" by (cases x)
    from createCompany_partnerships[OF Inr[unfolded x]] f have "filling_unique s'"
      by (simp add: filling_unique_def)
    with PostCompany Inr x show ?thesis by simp
  qed
next
  case (PostUser v)
  assume "filling_unique s"
  then show ?thesis using PostUser by (simp add: createUser_filling)
next
  case (PatchGroupSize cid body)
  assume "filling_unique s"
  then show ?thesis using PatchGroupSize
    by (simp add: patch_group_size_def updateCompanyGroupSize_def filling_unique_def
        split: option.splits)
qed

lemma run_filling: "filling_unique s \<Longrightarrow> filling_unique (run rs s)"
  by (induction rs arbitrary: s) (simp_all add: handle_filling)

lemma distinct_map_count:
  "distinct (map f xs) \<Longrightarrow> length (filter (\<lambda>x. f x = k) xs) \<le> 1"
proof (induction xs)
  case Nil
  then show ?case by simp
next
  case (Cons a xs)
  then have ih: "length (filter (\<lambda>x. f x = k) xs) \<le> 1" and na: "f a \<notin> f ` set xs" by simp_all
  show ?case
  proof (cases "f a = k")
    case True
    have "\<forall>x\<in>set xs. f x \<noteq> k"
    proof
      fix x assume "x \<in> set xs"
      then have "f x \<in> f ` set xs" by (rule imageI)
      with na True show "f x \<noteq> k" by metis
    qed
    then have "filter (\<lambda>x. f x = k) xs = []" by (simp add: filter_empty_conv)
    with True show ?thesis by simp
  next
    case False
    with ih show ?thesis by simp
  qed
qed

lemma filter_conj: "filter (\<lambda>x. P x \<and> Q x) xs = filter Q (filter P xs)"
  by (induction xs) auto

lemma filling_unique_count:
  assumes "filling_unique s"
  shows "length (filter (\<lambda>t. is_filling t \<and> companyId t = c) (partnerships s)) \<le> 1"
  unfolding filter_conj
  by (rule distinct_map_count[OF assms[unfolded filling_unique_def]])

subsection \<open>Leaders have a membership row\<close>

lemma leaders_are_members_iff:
  "leaders_are_members s =
     (\<forall>t\<in>set (partnerships s). has_membership (partnership_id t) (leaderId t) s)"
  by (simp add: leaders_are_members_def list_all_iff)

lemma member_step_leaders:
  assumes "member_step pid uid s s'" and "leaders_are_members s"
  shows "leaders_are_members s'"
proof -
  have ex: "extends s s'" using assms(1) by (rule member_step_extends)
  have ps: "partnerships s' = partnerships s" using assms(1) by (rule member_step_partnerships)
  show ?thesis
    using assms(2) has_membership_extends[OF ex] by (auto simp: leaders_are_members_iff ps)
qed

lemma ensureUserInTeam_found_leaders:
  assumes "ensureUserInTeam_found et uid n cid b s = Inr s'" and "leaders_are_members s"
  shows "leaders_are_members s'"
proof (cases et)
  case (Some t)
  with assms(1) have "member_step (partnership_id t) uid s s'" by (simp add: found_Some_step)
  then show ?thesis using assms(2) by (rule member_step_leaders)
next
  case None
  with assms(1) obtain t s1 v where ins: "insert_partnerships v s = Inr (t, s1)"
    and lead: "ip_leaderId v = uid"
    and st: "member_step (partnership_id t) uid s1 s'"
    using found_None_step[of uid n cid b s s'] by auto
  note i = insert_partnerships_Inr[OF ins]
  have ps1: "partnerships s1 = partnerships s @ [t]" using i by simp
  have ms1: "partnershipMembers s1 = partnershipMembers s" using i by simp
  have us1: "users s1 = users s" using i by simp
  have lt: "leaderId t = uid" using i lead by simp
  have pe: "partnership_exists (partnership_id t) s1"
    by (simp add: partnership_exists_def ps1)
  have ue: "user_exists uid s1" using i lead us1 by (simp add: user_exists_def)
  have new: "has_membership (partnership_id t) uid s'" using st pe ue by (rule member_step_has)
  have ex: "extends s1 s'" using st by (rule member_step_extends)
  have ps: "partnerships s' = partnerships s @ [t]"
    using member_step_partnerships[OF st] ps1 by simp
  have old: "has_membership (partnership_id r) (leaderId r) s'" if "r \<in> set (partnerships s)" for r
  proof -
    from that assms(2) have "has_membership (partnership_id r) (leaderId r) s"
      by (simp add: leaders_are_members_iff)
    then have "has_membership (partnership_id r) (leaderId r) s1"
      by (simp add: has_membership_def ms1)
    with ex show ?thesis by (rule has_membership_extends)
  qed
  show ?thesis using old new lt by (auto simp: leaders_are_members_iff ps)
qed

lemma ensureUserInTeam_leaders:
  "ensureUserInTeam uid tn cid b s = Inr s' \<Longrightarrow> leaders_are_members s \<Longrightarrow>
     leaders_are_members s'"
  by (auto simp: ensureUserInTeam_def split: jsnum.splits dest: ensureUserInTeam_found_leaders)

subsection \<open>Membership rows\<close>

lemma distinct_map_count_one:
  "distinct (map f xs) \<Longrightarrow> k \<in> f ` set xs \<Longrightarrow> length (filter (\<lambda>x. f x = k) xs) = 1"
proof (induction xs)
  case Nil
  then show ?case by simp
next
  case (Cons a xs)
  then have d: "distinct (map f xs)" and na: "f a \<notin> f ` set xs" by simp_all
  show ?case
  proof (cases "f a = k")
    case True
    have "\<forall>x\<in>set xs. f x \<noteq> k"
    proof
      fix x assume "x \<in> set xs"
      then have "f x \<in> f ` set xs" by (rule imageI)
      with na True show "f x \<noteq> k" by metis
    qed
    then have "filter (\<lambda>x. f x = k) xs = []" by (simp add: filter_empty_conv)
    with True show ?thesis by simp
  next
    case False
    with Cons.prems(2) have "k \<in> f ` set xs" by auto
    with Cons.IH d have "length (filter (\<lambda>x. f x = k) xs) = 1" by simp
    with False show ?thesis by simp
  qed
qed

lemma membership_rows_one:
  assumes "members_unique s" and "has_membership pid uid s"
  shows "length (membership_rows pid uid s) = 1"
proof -
  let ?f = "\<lambda>m. (partnershipId m, userId m)"
  have k: "(pid, uid) \<in> ?f ` set (partnershipMembers s)"
    using assms(2) by (force simp: has_membership_def list_ex_iff)
  have "membership_rows pid uid s = filter (\<lambda>m. ?f m = (pid, uid)) (partnershipMembers s)"
    by (simp add: membership_rows_def)
  then show ?thesis
    using distinct_map_count_one[OF assms(1)[unfolded members_unique_def] k] by simp
qed

lemma member_step_unique:
  assumes "member_step pid uid s s'" and "members_unique s"
  shows "members_unique s'"
proof (cases "insert_partnershipMembers pid uid s")
  case (Inl e)
  with assms show ?thesis by (simp add: member_step_def)
next
  case (Inr s2)
  with assms(1) have "s' = s2" by (simp add: member_step_def)
  with insert_partnershipMembers_Inr[OF Inr] assms(2) show ?thesis
    by (force simp: members_unique_def has_membership_def list_ex_iff)
qed

lemma ensureUserInTeam_unique:
  assumes "ensureUserInTeam uid (Num n) cid b s = Inr s'" and "members_unique s"
  shows "members_unique s'"
proof (cases "selectTeam cid n s")
  case (Some t)
  with assms(1) have "member_step (partnership_id t) uid s s'"
    by (simp add: ensureUserInTeam_def found_Some_step)
  then show ?thesis using assms(2) by (rule member_step_unique)
next
  case None
  with assms(1) have "ensureUserInTeam_found None uid n cid b s = Inr s'"
    by (simp add: ensureUserInTeam_def)
  from found_None_step[OF this] obtain t s1 v where ins: "insert_partnerships v s = Inr (t, s1)"
    and st: "member_step (partnership_id t) uid s1 s'" by blast
  have "partnershipMembers s1 = partnershipMembers s"
    using insert_partnerships_Inr[OF ins] by simp
  with assms(2) have "members_unique s1" by (simp add: members_unique_def)
  with st show ?thesis by (rule member_step_unique)
qed

text \<open>On a store where the user is a member already, the operation changes nothing.\<close>

lemma has_membership_insert:
  "has_membership pid uid s \<Longrightarrow>
     insert_partnershipMembers pid uid s = Inl (UniqueViolation ''unique_partnership_user'')"
  by (simp add: insert_partnershipMembers_def)

lemma is_member_noop:
  assumes "is_member uid cid n s"
  shows "ensureUserInTeam uid (Num n) cid b s = Inr s"
proof -
  from assms obtain t where t: "selectTeam cid n s = Some t"
    and h: "has_membership (partnership_id t) uid s"
    by (auto simp: is_member_def split: option.splits)
  show ?thesis
    by (simp add: ensureUserInTeam_def t ensureUserInTeam_found_def has_membership_insert[OF h])
qed

lemma is_member_has:
  "is_member uid cid n s \<Longrightarrow>
     \<exists>t. selectTeam cid n s = Some t \<and> has_membership (partnership_id t) uid s"
  by (auto simp: is_member_def split: option.splits)

lemma ensureUserInTeam_existing:
  assumes "ensureUserInTeam uid (Num n) cid b s = Inr s1" and "selectTeam cid n s = Some t"
    and "user_exists uid s"
  shows "if has_membership (partnership_id t) uid s
         then insert_partnershipMembers (partnership_id t) uid s =
                Inl (UniqueViolation ''unique_partnership_user'') \<and> s1 = s
         else partnershipMembers s1 = partnershipMembers s @
                [\<lparr>member_id = next_id s, partnershipId = partnership_id t, userId = uid\<rparr>]"
proof (cases "has_membership (partnership_id t) uid s")
  case True
  have "is_member uid cid n s" using True assms(2) by (simp add: is_member_def)
  from is_member_noop[OF this, of b] assms(1) have "s1 = s" by simp
  with True has_membership_insert[OF True] show ?thesis by simp
next
  case False
  have pe: "partnership_exists (partnership_id t) s" using assms(2) by (rule selectTeam_Some_exists)
  from assms(1,2) have st: "member_step (partnership_id t) uid s s1"
    by (simp add: ensureUserInTeam_def found_Some_step)
  have "\<not> (\<exists>e. insert_partnershipMembers (partnership_id t) uid s = Inl e)"
    using False pe assms(3) by (simp add: insert_partnershipMembers_def)
  with st have "insert_partnershipMembers (partnership_id t) uid s = Inr s1"
    by (simp add: member_step_def)
  from insert_partnershipMembers_Inr[OF this] False show ?thesis by simp
qed

subsection \<open>A company that is not there\<close>

lemma getCompanyById_None: "\<not> company_exists cid s \<Longrightarrow> getCompanyById cid s = None"
  by (simp add: company_exists_def getCompanyById_def find_None_iff list_ex_iff)

subsection \<open>The first team of a company\<close>

lemma extends_trans: "extends s s1 \<Longrightarrow> extends s1 s2 \<Longrightarrow> extends s s2"
  by (auto simp: extends_def)

lemma left_by_extends: "extends s (left_by (assignUserToTeam uid cid s))"
proof (cases "assignUserToTeam uid cid s")
  case (Inl x)
  obtain e sd where x: "x = (e, sd)" by (cases x)
  from assignUserToTeam_left[OF Inl[unfolded x]] have "extends s sd"
    by (auto simp: extends_refl dest: ensureUserInTeam_extends)
  with Inl x show ?thesis by simp
next
  case (Inr s')
  from assignUserToTeam_steps[OF Inr] obtain s1 where
    a: "s1 = s \<or> (\<exists>tn. ensureUserInTeam uid tn cid False s = Inr s1)" and
    b: "ensureUserInTeam uid (Num (userPosition uid cid s)) cid True s1 = Inr s'" by blast
  have "extends s s1" using a by (auto simp: extends_refl dest: ensureUserInTeam_extends)
  moreover have "extends s1 s'" using b by (rule ensureUserInTeam_extends)
  ultimately have "extends s s'" by (rule extends_trans)
  with Inr show ?thesis by simp
qed

lemma engine_run_snoc:
  "engine_run (xs @ [x]) cid s = left_by (assignUserToTeam x cid (engine_run xs cid s))"
  by (induction xs arbitrary: s) simp_all

lemma engine_run_extends: "extends s (engine_run xs cid s)"
proof (induction xs arbitrary: s)
  case Nil
  show ?case by (simp add: extends_refl)
next
  case (Cons x xs)
  have "extends s (left_by (assignUserToTeam x cid s))" by (rule left_by_extends)
  moreover have "extends (left_by (assignUserToTeam x cid s))
     (engine_run xs cid (left_by (assignUserToTeam x cid s)))" by (rule Cons.IH)
  ultimately show ?case by (simp add: extends_trans)
qed

lemma joined_ids_users: "joined_ids cid s = map user_id (usersByCompany cid s)"
  by (simp add: joined_ids_def usersByCompany_def)

lemma userPosition_joined:
  assumes "distinct (map user_id (users s))" and "k < length (joined_ids cid s)"
  shows "userPosition (joined_ids cid s ! k) cid s = int k + 1"
proof -
  have k: "k < length (usersByCompany cid s)" using assms(2) by (simp add: joined_ids_users)
  have "userPosition (joined_ids cid s ! k) cid s = int (Suc k)"
  proof (rule userPosition_nth[OF assms(1)])
    show "1 \<le> Suc k" by simp
    show "Suc k \<le> length (usersByCompany cid s)" using k by simp
    show "user_id (usersByCompany cid s ! (Suc k - 1)) = joined_ids cid s ! k"
      using k by (simp add: joined_ids_users)
  qed
  then show ?thesis by simp
qed

lemma userPosition_users: "users s' = users s \<Longrightarrow> userPosition uid cid s' = userPosition uid cid s"
  by (simp add: userPosition_def usersByCompany_def)

lemma joined_ids_exist: "u \<in> set (joined_ids cid s) \<Longrightarrow> user_exists u s"
  by (auto simp: joined_ids_def user_exists_def list_ex_iff)

lemma getCompanyById_exists: "getCompanyById cid s = Some c \<Longrightarrow> company_exists cid s"
  by (auto simp: getCompanyById_def company_exists_def list_ex_iff find_Some_iff)

text \<open>With a filling team in the company, no further team can be inserted by the engine.\<close>

lemma insert_partnerships_refused:
  assumes "list_ex (\<lambda>t. is_filling t \<and> companyId t = cid) (partnerships s)"
  shows "\<exists>e. insert_partnerships
           \<lparr>ip_groupId = gid, ip_companyId = cid, ip_teamNumber = n, ip_leaderId = uid,
            ip_status = ''filling''\<rparr> s = Inl e"
  using assms by (simp add: insert_partnerships_def)

lemma ensureUserInTeam_refused:
  assumes "selectTeam cid n s = None"
    and "list_ex (\<lambda>t. is_filling t \<and> companyId t = cid) (partnerships s)"
  shows "\<exists>e. ensureUserInTeam uid (Num n) cid b s = Inl e"
proof -
  from insert_partnerships_refused[OF assms(2)] obtain e where
    "insert_partnerships
           \<lparr>ip_groupId = ''MAKECENTSGRO-T'' @ number_to_string n, ip_companyId = cid,
            ip_teamNumber = n, ip_leaderId = uid, ip_status = ''filling''\<rparr> s = Inl e"
    by blast
  then have "ensureUserInTeam uid (Num n) cid b s = Inl e"
    by (simp add: ensureUserInTeam_def assms(1) ensureUserInTeam_found_def)
  then show ?thesis by blast
qed

lemma first_team_only_filling:
  "first_team_only cid l ms s \<Longrightarrow>
     list_ex (\<lambda>t. is_filling t \<and> companyId t = cid) (partnerships s)"
  by (auto simp: first_team_only_def is_filling_def)

lemma first_team_only_select:
  "first_team_only cid l ms s \<Longrightarrow> n \<noteq> 1 \<Longrightarrow> selectTeam cid n s = None"
  by (auto simp: first_team_only_def selectTeam_def)

lemma assign_first:
  assumes "getCompanyById cid s = Some c" and "2 \<le> groupSize c"
    and "partnerships s = []" and "partnershipMembers s = []"
    and "userPosition uid cid s = 1" and "user_exists uid s"
  shows "first_team_only cid uid [uid] (left_by (assignUserToTeam uid cid s))"
proof -
  have ce: "company_exists cid s" using assms(1) by (rule getCompanyById_exists)
  have g: "groupSize c \<noteq> 1" using assms(2) by simp
  have m: "membershipTeamNumber 1 (groupSize c) = Num 1"
    by (simp add: membershipTeamNumber_Num[OF g])
  show ?thesis
    using assms(1,3,4,5,6) ce m
    by (simp add: first_team_only_def assignUserToTeam_def Let_def leadershipTeamNumber_def
        ensureUserInTeam_def selectTeam_def ensureUserInTeam_found_def
        insert_partnerships_def insert_partnershipMembers_def has_membership_def
        partnership_exists_def user_exists_def company_exists_def)
qed

lemma assign_refused:
  assumes "first_team_only cid l ms s" and "getCompanyById cid s = Some c"
    and "2 \<le> groupSize c" and "groupSize c \<le> userPosition uid cid s"
  shows "left_by (assignUserToTeam uid cid s) = s"
proof -
  let ?p = "userPosition uid cid s"
  let ?m = "(?p - 1) div (groupSize c - 1) + 1"
  have g: "groupSize c \<noteq> 1" using assms(3) by simp
  have "(groupSize c - 1) div (groupSize c - 1) \<le> (?p - 1) div (groupSize c - 1)"
    using assms(3,4) by (intro zdiv_mono1) simp_all
  then have m2: "2 \<le> ?m" using assms(3) by simp
  have p2: "2 \<le> ?p" using assms(3,4) by simp
  note fill = first_team_only_filling[OF assms(1)]
  from ensureUserInTeam_refused[OF first_team_only_select[OF assms(1)] fill, of ?m uid False]
    m2 obtain e1 where e1: "ensureUserInTeam uid (Num ?m) cid False s = Inl e1" by auto
  from ensureUserInTeam_refused[OF first_team_only_select[OF assms(1)] fill, of ?p uid True]
    p2 obtain e2 where e2: "ensureUserInTeam uid (Num ?p) cid True s = Inl e2" by auto
  show ?thesis
    using assms(2) e1 e2
    by (simp add: assignUserToTeam_def Let_def leadershipTeamNumber_def
        membershipTeamNumber_Num[OF g])
qed

lemma assign_member:
  assumes "first_team_only cid l ms s" and "getCompanyById cid s = Some c"
    and "2 \<le> userPosition uid cid s" and "userPosition uid cid s < groupSize c"
    and "uid \<notin> set ms" and "user_exists uid s"
  shows "first_team_only cid l (ms @ [uid]) (left_by (assignUserToTeam uid cid s))"
proof -
  let ?p = "userPosition uid cid s"
  have g: "groupSize c \<noteq> 1" using assms(3,4) by simp
  have "(?p - 1) div (groupSize c - 1) = 0" using assms(3,4) by (intro div_pos_pos_trivial) simp_all
  then have m: "membershipTeamNumber ?p (groupSize c) = Num 1"
    by (simp add: membershipTeamNumber_Num[OF g])
  from assms(1) obtain t where t: "partnerships s = [t]" "companyId t = cid" "teamNumber t = 1"
    "leaderId t = l" "status t = ''filling''"
    "map (\<lambda>m. (partnershipId m, userId m)) (partnershipMembers s) =
            map (\<lambda>u. (partnership_id t, u)) ms"
    by (auto simp: first_team_only_def)
  have sel: "selectTeam cid 1 s = Some t" using t by (simp add: selectTeam_def)
  have "(partnership_id t, uid) \<notin> set (map (\<lambda>m. (partnershipId m, userId m)) (partnershipMembers s))"
    using assms(5) by (simp add: t(6) image_iff)
  then have nh: "\<not> has_membership (partnership_id t) uid s"
    by (force simp: has_membership_def list_ex_iff)
  have pe: "partnership_exists (partnership_id t) s" using sel by (rule selectTeam_Some_exists)
  let ?s1 = "s\<lparr>partnershipMembers := partnershipMembers s @
              [\<lparr>member_id = next_id s, partnershipId = partnership_id t, userId = uid\<rparr>],
            next_id := Suc (next_id s)\<rparr>"
  have e1: "ensureUserInTeam uid (Num 1) cid False s = Inr ?s1"
    using nh pe assms(6)
    by (simp add: ensureUserInTeam_def sel ensureUserInTeam_found_def
        insert_partnershipMembers_def)
  have inv1: "first_team_only cid l (ms @ [uid]) ?s1"
    using t by (simp add: first_team_only_def)
  have c1: "getCompanyById cid ?s1 = Some c" using assms(2) by (simp add: getCompanyById_def)
  have p1: "?p \<noteq> 1" using assms(3) by simp
  from ensureUserInTeam_refused[OF first_team_only_select[OF inv1 p1]
      first_team_only_filling[OF inv1], of uid True]
  obtain e2 where e2: "ensureUserInTeam uid (Num ?p) cid True ?s1 = Inl e2" by blast
  have "assignUserToTeam uid cid s = Inl (e2, ?s1)"
    using assms(2,3) m e1 e2
    by (simp add: assignUserToTeam_def Let_def leadershipTeamNumber_def)
  with inv1 show ?thesis by simp
qed

lemma joined_ids_distinct:
  "distinct (map user_id (users s)) \<Longrightarrow> distinct (joined_ids cid s)"
  by (simp add: joined_ids_def distinct_map_filter)

lemma map_pair_const:
  "map (\<lambda>m. (f m, h m)) xs = map (\<lambda>u. (a, u)) ms \<Longrightarrow>
     (\<forall>m\<in>set xs. f m = a) \<and> map h xs = ms"
  by (induction xs arbitrary: ms) auto

lemma first_team_only_members:
  assumes "first_team_only cid l ms s"
  shows "map_option leaderId (selectTeam cid 1 s) = Some l \<and> team_members cid 1 s = ms"
proof -
  from assms obtain t where t: "partnerships s = [t]" "companyId t = cid" "teamNumber t = 1"
    "leaderId t = l"
    and k: "map (\<lambda>m. (partnershipId m, userId m)) (partnershipMembers s) =
            map (\<lambda>u. (partnership_id t, u)) ms"
    by (auto simp: first_team_only_def)
  have sel: "selectTeam cid 1 s = Some t" using t by (simp add: selectTeam_def)
  note mp = map_pair_const[OF k]
  have all: "filter (\<lambda>m. partnershipId m = partnership_id t) (partnershipMembers s) =
             partnershipMembers s" using mp by (simp add: filter_id_conv)
  have "map userId (partnershipMembers s) = ms" using mp by (elim conjE)
  with all sel t(4) show ?thesis by (simp add: team_members_def)
qed

lemma run_first_team:
  assumes "getCompanyById cid s = Some c" and "2 \<le> groupSize c"
    and "distinct (map user_id (users s))"
    and "partnerships s = []" and "partnershipMembers s = []"
    and "1 \<le> n" and "n \<le> length (joined_ids cid s)"
  shows "first_team_only cid (joined_ids cid s ! 0)
           (take (min n (nat (groupSize c - 1))) (joined_ids cid s))
           (engine_run (take n (joined_ids cid s)) cid s)"
  using assms(6,7)
proof (induction n)
  case 0
  then show ?case by simp
next
  case (Suc n)
  let ?ids = "joined_ids cid s"
  let ?g = "groupSize c"
  have len: "n < length ?ids" using Suc.prems by simp
  have tk: "take (Suc n) ?ids = take n ?ids @ [?ids ! n]"
    using len by (simp add: take_Suc_conv_app_nth)
  let ?sn = "engine_run (take n ?ids) cid s"
  have ex: "extends s ?sn" by (rule engine_run_extends)
  have us: "users ?sn = users s" and cs: "companies ?sn = companies s"
    using ex by (simp_all add: extends_def)
  have pos: "userPosition (?ids ! n) cid ?sn = int n + 1"
    using userPosition_joined[OF assms(3) len] by (simp add: userPosition_users[OF us])
  have co: "getCompanyById cid ?sn = Some c" using assms(1) by (simp add: getCompanyById_def cs)
  have ue: "user_exists (?ids ! n) ?sn"
    using joined_ids_exist[of "?ids ! n" cid s] len by (simp add: user_exists_def us)
  have run: "engine_run (take (Suc n) ?ids) cid s =
             left_by (assignUserToTeam (?ids ! n) cid ?sn)"
    by (simp only: tk engine_run_snoc)
  show ?case
  proof (cases "n = 0")
    case True
    have e: "?sn = s" using True by simp
    have t1: "take (min (Suc n) (nat (?g - 1))) ?ids = [?ids ! 0]"
      using True len assms(2) by (simp add: take_Suc_conv_app_nth)
    have p1: "userPosition (?ids ! n) cid s = 1" using pos True by (simp add: e)
    have ue0: "user_exists (?ids ! n) s" using ue by (simp add: e)
    have "first_team_only cid (?ids ! n) [?ids ! n] (left_by (assignUserToTeam (?ids ! n) cid s))"
      using assms(1,2,4,5) p1 ue0 by (rule assign_first)
    then have "first_team_only cid (?ids ! 0) [?ids ! 0]
                 (left_by (assignUserToTeam (?ids ! n) cid ?sn))"
      using True by simp
    then show ?thesis by (simp only: run t1)
  next
    case False
    then have n1: "1 \<le> n" by simp
    have ih: "first_team_only cid (?ids ! 0) (take (min n (nat (?g - 1))) ?ids) ?sn"
      using Suc.IH n1 len by simp
    show ?thesis
    proof (cases "int n + 1 < ?g")
      case True
      then have mn: "min n (nat (?g - 1)) = n" "min (Suc n) (nat (?g - 1)) = Suc n" by simp_all
      have notin: "?ids ! n \<notin> set (take n ?ids)"
        using joined_ids_distinct[OF assms(3), of cid] len
        by (auto simp: in_set_conv_nth distinct_conv_nth)
      have "first_team_only cid (?ids ! 0) (take n ?ids @ [?ids ! n])
              (left_by (assignUserToTeam (?ids ! n) cid ?sn))"
        using ih co True n1 notin ue by (intro assign_member) (simp_all add: mn pos)
      then show ?thesis by (simp only: mn tk engine_run_snoc)
    next
      case False
      then have mn: "min (Suc n) (nat (?g - 1)) = min n (nat (?g - 1))" by simp
      have ge: "?g \<le> userPosition (?ids ! n) cid ?sn" using False by (simp add: pos)
      have "left_by (assignUserToTeam (?ids ! n) cid ?sn) = ?sn"
        using ih co assms(2) ge by (rule assign_refused)
      with ih show ?thesis by (simp only: run mn)
    qed
  qed
qed

lemma membership_later:
  assumes "2 \<le> g" and "g \<le> p"
  shows "\<exists>m. 2 \<le> m \<and> membershipTeamNumber p g = Num m"
proof -
  have gn: "g \<noteq> 1" using assms(1) by simp
  have "(g - 1) div (g - 1) \<le> (p - 1) div (g - 1)"
    using assms by (intro zdiv_mono1) simp_all
  then have "2 \<le> (p - 1) div (g - 1) + 1" using assms(1) by simp
  then show ?thesis by (simp add: membershipTeamNumber_Num[OF gn])
qed

subsection \<open>Team size 1, and the route that sets the size\<close>








section \<open>The claims\<close>

subsection \<open>The filling team\<close>

text \<open>
  Claim C4.  At most one team of a company has status filling: if this holds of a store, it
  holds of every store reached from it by requests (company creation, user joins, changes of
  the team size).  It holds of the empty store.  The engine inserts every new team with
  status filling, and the insert into \<open>partnerships\<close> refuses a second filling row for
  the company (\<open>unique_filling_team_idx\<close>).
\<close>

theorem one_filling_team_per_company:
  assumes "filling_unique s"
  shows "filling_unique (run rs s) \<and>
         length (filter (\<lambda>t. is_filling t \<and> companyId t = c) (partnerships (run rs s))) \<le> 1"
  using run_filling[OF assms] filling_unique_count[OF run_filling[OF assms], of c] by simp

theorem one_filling_team_per_company_witness:
  "filling_unique empty_store \<and>
   filling_unique (run [PostCompany newX, PostUser userA, PostUser userB] empty_store) \<and>
   length (filter (\<lambda>t. is_filling t \<and> companyId t = 0)
      (partnerships (run [PostCompany newX, PostUser userA, PostUser userB] empty_store))) \<le> 1"
proof -
  have h: "filling_unique empty_store" by (simp add: filling_unique_def empty_store_def)
  from one_filling_team_per_company[OF h,
      of "[PostCompany newX, PostUser userA, PostUser userB]" 0] h
  show ?thesis by simp
qed

subsection \<open>The leader is a member\<close>

text \<open>
  Claim C10.  When the assignment of the user at position \<open>p \<ge> 1\<close> returns, the user has
  a membership row in the team of number \<open>p\<close>, the team the user is registered to lead.
  The engine keeps the leader of every team in the team's member list: if every team of the
  store has a membership row for its leader before the assignment, so it is afterwards.
\<close>

theorem leader_is_member:
  assumes "1 \<le> userPosition uid cid s" and "assignUserToTeam uid cid s = Inr s'"
  shows "is_member uid cid (userPosition uid cid s) s' \<and>
         (leaders_are_members s \<longrightarrow> leaders_are_members s')"
proof -
  from assignUserToTeam_steps[OF assms(2)] obtain s1 where
    a: "s1 = s \<or> (\<exists>tn. ensureUserInTeam uid tn cid False s = Inr s1)" and
    b: "ensureUserInTeam uid (Num (userPosition uid cid s)) cid True s1 = Inr s'" by blast
  have ue: "user_exists uid s" using assms(1) by (rule userPosition_exists)
  have ex: "extends s s1" using a by (auto simp: extends_refl dest: ensureUserInTeam_extends)
  have ue1: "user_exists uid s1" using ex ue by (simp add: user_exists_extends)
  have m: "is_member uid cid (userPosition uid cid s) s'"
    using b ue1 by (rule ensureUserInTeam_is_member)
  have l: "leaders_are_members s'" if "leaders_are_members s"
  proof -
    from a that have "leaders_are_members s1" by (auto dest: ensureUserInTeam_leaders)
    with b show ?thesis by (rule ensureUserInTeam_leaders)
  qed
  from m l show ?thesis by blast
qed

theorem leader_is_member_witness:
  "1 \<le> userPosition 20 0 store_ABCD \<and>
   (\<exists>s'. assignUserToTeam 20 0 store_ABCD = Inr s' \<and> is_member 20 0 4 s' \<and>
      map leaderId (partnerships s') = [1, 2, 3, 20] \<and> leaders_are_members s') \<and>
   leaders_are_members store_ABCD"
proof -
  have p: "userPosition 20 0 store_ABCD = 4"
    by (simp add: store_defs userPosition_def usersByCompany_def)
  have h1: "1 \<le> userPosition 20 0 store_ABCD" by (simp add: p)
  have "\<exists>s'. assignUserToTeam 20 0 store_ABCD = Inr s' \<and>
          map leaderId (partnerships s') = [1, 2, 3, 20]"
    by (simp add: store_defs engine_defs)
  then obtain s' where h2: "assignUserToTeam 20 0 store_ABCD = Inr s'"
    and ls: "map leaderId (partnerships s') = [1, 2, 3, 20]"
    by (elim exE conjE)
  have l0: "leaders_are_members store_ABCD"
    by (simp add: store_defs leaders_are_members_def has_membership_def)
  have t: "is_member 20 0 (userPosition 20 0 store_ABCD) s' \<and>
         (leaders_are_members store_ABCD \<longrightarrow> leaders_are_members s')"
    using h1 h2 by (rule leader_is_member)
  have m: "is_member 20 0 4 s'" using t by (simp only: p)
  have l: "leaders_are_members s'" using t l0 by (elim conjE) (erule mp)
  have "assignUserToTeam 20 0 store_ABCD = Inr s' \<and> is_member 20 0 4 s' \<and>
      map leaderId (partnerships s') = [1, 2, 3, 20] \<and> leaders_are_members s'"
    using h2 m ls l by (intro conjI)
  then have "\<exists>s'. assignUserToTeam 20 0 store_ABCD = Inr s' \<and> is_member 20 0 4 s' \<and>
      map leaderId (partnerships s') = [1, 2, 3, 20] \<and> leaders_are_members s'"
    by (rule exI)
  with h1 l0 show ?thesis by (intro conjI)
qed

subsection \<open>The membership insert\<close>

text \<open>
  Claim C6.  Let the ensure operation return for a team number and an existing user, on a
  store whose membership rows are unique.  Then running it again for the same team and user
  returns as well and leaves the store as it is; the store has exactly one membership row
  for the team and the user, and its rows are still unique.  If the team was there before
  the first call, then either the user was a member, the insert raised the uniqueness
  violation and the call returned with the store unchanged, or the user was not and the
  call appended exactly one membership row.
\<close>

theorem ensureUserInTeam_idempotent:
  assumes "members_unique s" and "user_exists uid s"
    and "ensureUserInTeam uid (Num n) cid isLeader s = Inr s1"
  shows "ensureUserInTeam uid (Num n) cid isLeader s1 = Inr s1 \<and>
         (\<exists>t. selectTeam cid n s1 = Some t \<and>
              length (membership_rows (partnership_id t) uid s1) = 1) \<and>
         members_unique s1 \<and>
         (\<forall>t. selectTeam cid n s = Some t \<longrightarrow>
            (if has_membership (partnership_id t) uid s
             then insert_partnershipMembers (partnership_id t) uid s =
                    Inl (UniqueViolation ''unique_partnership_user'') \<and> s1 = s
             else partnershipMembers s1 = partnershipMembers s @
                    [\<lparr>member_id = next_id s, partnershipId = partnership_id t,
                      userId = uid\<rparr>]))"
proof -
  have m: "is_member uid cid n s1" using assms(3,2) by (rule ensureUserInTeam_is_member)
  have again: "ensureUserInTeam uid (Num n) cid isLeader s1 = Inr s1"
    using m by (rule is_member_noop)
  have u1: "members_unique s1" using assms(3,1) by (rule ensureUserInTeam_unique)
  from is_member_has[OF m] obtain t where t: "selectTeam cid n s1 = Some t"
    and h: "has_membership (partnership_id t) uid s1" by blast
  have one: "length (membership_rows (partnership_id t) uid s1) = 1"
    using u1 h by (rule membership_rows_one)
  have ex: "\<exists>t. selectTeam cid n s1 = Some t \<and>
              length (membership_rows (partnership_id t) uid s1) = 1"
    using t one by blast
  have old: "\<forall>t. selectTeam cid n s = Some t \<longrightarrow>
            (if has_membership (partnership_id t) uid s
             then insert_partnershipMembers (partnership_id t) uid s =
                    Inl (UniqueViolation ''unique_partnership_user'') \<and> s1 = s
             else partnershipMembers s1 = partnershipMembers s @
                    [\<lparr>member_id = next_id s, partnershipId = partnership_id t,
                      userId = uid\<rparr>])"
    using ensureUserInTeam_existing[OF assms(3) _ assms(2)] by blast
  from again ex u1 old show ?thesis by (intro conjI)
qed

theorem ensureUserInTeam_idempotent_witness:
  "members_unique store_ABC \<and> user_exists 3 store_ABC \<and>
   (\<exists>s1. ensureUserInTeam 3 (Num 2) 0 False store_ABC = Inr s1 \<and>
      ensureUserInTeam 3 (Num 2) 0 False s1 = Inr s1 \<and>
      length (partnershipMembers s1) = 6 \<and> members_unique s1)"
proof -
  have h1: "members_unique store_ABC" by (simp add: store_defs members_unique_def)
  have h2: "user_exists 3 store_ABC" by (simp add: store_defs user_exists_def)
  have "\<exists>s1. ensureUserInTeam 3 (Num 2) 0 False store_ABC = Inr s1 \<and>
      length (partnershipMembers s1) = 6"
    by (simp add: store_defs engine_defs)
  then obtain s1 where h3: "ensureUserInTeam 3 (Num 2) 0 False store_ABC = Inr s1"
    and n: "length (partnershipMembers s1) = 6" by (elim exE conjE)
  note t = ensureUserInTeam_idempotent[OF h1 h2 h3]
  have a: "ensureUserInTeam 3 (Num 2) 0 False s1 = Inr s1" using t by (elim conjE)
  have u: "members_unique s1" using t by (elim conjE)
  have "ensureUserInTeam 3 (Num 2) 0 False store_ABC = Inr s1 \<and>
      ensureUserInTeam 3 (Num 2) 0 False s1 = Inr s1 \<and>
      length (partnershipMembers s1) = 6 \<and> members_unique s1"
    using h3 a n u by (intro conjI)
  then have "\<exists>s1. ensureUserInTeam 3 (Num 2) 0 False store_ABC = Inr s1 \<and>
      ensureUserInTeam 3 (Num 2) 0 False s1 = Inr s1 \<and>
      length (partnershipMembers s1) = 6 \<and> members_unique s1" by (rule exI)
  with h1 h2 show ?thesis by (intro conjI)
qed

subsection \<open>A team insert that is refused\<close>

text \<open>
  Claim C5 (the code does not do this).  The claim is that a uniqueness conflict of the
  team insert is caught and answered by reading the team again.  In the code the insert
  into \<open>partnerships\<close> stands outside every \<open>try\<close>: whatever error it raises is the result
  of \<open>ensureUserInTeam\<close>.  The case is the one where the select found no team and another
  run has inserted it since: \<open>existingTeam\<close> is empty and the store has the team.
\<close>

theorem team_insert_error_leaves_ensure:
  assumes "insert_partnerships
             \<lparr>ip_groupId = ''MAKECENTSGRO-T'' @ number_to_string n, ip_companyId = cid,
              ip_teamNumber = n, ip_leaderId = uid, ip_status = ''filling''\<rparr> s = Inl e"
  shows "ensureUserInTeam_found None uid n cid isLeader s = Inl e"
  using assms by (simp add: ensureUserInTeam_found_def)

theorem team_insert_error_leaves_ensure_witness:
  "insert_partnerships
     \<lparr>ip_groupId = ''MAKECENTSGRO-T'' @ number_to_string 2, ip_companyId = 0,
      ip_teamNumber = 2, ip_leaderId = 3, ip_status = ''filling''\<rparr> store_ABC =
     Inl (UniqueViolation ''unique_company_team'') \<and>
   ensureUserInTeam_found None 3 2 0 True store_ABC =
     Inl (UniqueViolation ''unique_company_team'')"
proof -
  have h: "insert_partnerships
     \<lparr>ip_groupId = ''MAKECENTSGRO-T'' @ number_to_string 2, ip_companyId = 0,
      ip_teamNumber = 2, ip_leaderId = 3, ip_status = ''filling''\<rparr> store_ABC =
     Inl (UniqueViolation ''unique_company_team'')"
    by (simp add: store_defs insert_partnerships_def)
  from team_insert_error_leaves_ensure[OF h] h show ?thesis by (intro conjI)
qed

subsection \<open>Team numbers of a user\<close>

text \<open>
  Claim C1 (the code does not do this).  The claim is that the engine registers every user
  for the team of the user's own position.  The engine inserts every team with status
  filling and no statement changes a status, while \<open>unique_filling_team_idx\<close> allows
  a company one filling team.  In company X of team size 4 the engine is called for A and
  then for B, with the rows of both stored; a user of no company stands between them in the
  table, so B is the second user of the company and the third of the table.  The call for A
  creates team 1.  The call for B finds position 2, leadership number 2 and membership
  number 1, inserts B as a member of team 1 and then throws, the insert of team 2 being
  refused: B is left a member of team 1, and the company has no team 2.  When a user of X
  is created by \<open>createUser\<close>, the engine does not find the user among the users of
  the company: the position is 0, the insert of a team of number 0 is refused by
  \<open>valid_team_number\<close>, and no team is written.
\<close>

theorem second_user_not_registered:
  "joined_ids 0 store_five = [1, 3, 4, 5, 6] \<and>
   assignUserToTeam 1 0 store_five = Inr (engine_run [1] 0 store_five) \<and>
   map (\<lambda>t. (teamNumber t, leaderId t, status t)) (partnerships (engine_run [1] 0 store_five)) =
     [(1, 1, ''filling'')] \<and>
   userPosition 3 0 (engine_run [1] 0 store_five) = 2 \<and>
   leadershipTeamNumber 2 = 2 \<and> membershipTeamNumber 2 4 = Num 1 \<and>
   assignUserToTeam 3 0 (engine_run [1] 0 store_five) =
     Inl (UniqueViolation ''unique_filling_team_idx'', engine_run [1, 3] 0 store_five) \<and>
   is_member 3 0 1 (engine_run [1, 3] 0 store_five) \<and>
   selectTeam 0 2 (engine_run [1, 3] 0 store_five) = None \<and>
   fst (createUser \<lparr>iu_email = ''f@x'', iu_companyId = Some 0\<rparr> store_five) =
     Inl (CheckViolation ''valid_team_number'') \<and>
   partnerships
     (snd (createUser \<lparr>iu_email = ''f@x'', iu_companyId = Some 0\<rparr> store_five)) = []"
  by (simp add: store_five_def companyX_def run_defs engine_defs)

subsection \<open>How the teams fill\<close>

text \<open>
  Claim C2, as the claim states it, fails: team size 4, and the engine called for the five
  users of X in join order.  Team 1 then has three members, its leader among them, and not
  four: the fourth user of the company has membership number 2.
\<close>

theorem team_fill_counterexample:
  "groupSize companyX = 4 \<and> joined_ids 0 store_five = [1, 3, 4, 5, 6] \<and>
   length (team_members 0 1 (engine_run [1, 3, 4, 5, 6] 0 store_five)) = 3 \<and>
   membershipTeamNumber (userPosition 5 0 store_five) 4 = Num 2"
  by (simp add: store_five_def companyX_def run_defs engine_defs)

text \<open>
  Claim C2, amended.  Let the company have team size \<open>G \<ge> 2\<close>, let the rows of its
  users be stored, with distinct ids, and let the store have no team yet.  After the engine
  has been called for the first \<open>n\<close> users of the company in join order, \<open>n \<ge> 1\<close>,
  team 1 is led by the first user and its members are the first \<open>min n (G - 1)\<close>
  users of the company: fewer than \<open>G\<close>, the leader counted.  The leadership number of
  the \<open>k\<close>-th user of the company is \<open>k\<close>, and every position from \<open>G\<close> on has
  a membership number of 2 or more.
\<close>

theorem first_team_fills:
  assumes "getCompanyById cid s = Some c" and "2 \<le> groupSize c"
    and "distinct (map user_id (users s))"
    and "partnerships s = []" and "partnershipMembers s = []"
    and "1 \<le> n" and "n \<le> length (joined_ids cid s)"
  shows "map_option leaderId (selectTeam cid 1 (engine_run (take n (joined_ids cid s)) cid s)) =
           Some (hd (joined_ids cid s)) \<and>
         team_members cid 1 (engine_run (take n (joined_ids cid s)) cid s) =
           take (min n (nat (groupSize c - 1))) (joined_ids cid s) \<and>
         int (length (team_members cid 1 (engine_run (take n (joined_ids cid s)) cid s))) <
           groupSize c \<and>
         (\<forall>k<length (joined_ids cid s).
            leadershipTeamNumber (userPosition (joined_ids cid s ! k) cid s) = int k + 1) \<and>
         (\<forall>p\<ge>groupSize c. \<exists>m\<ge>2. membershipTeamNumber p (groupSize c) = Num m)"
proof -
  let ?ids = "joined_ids cid s"
  let ?s' = "engine_run (take n ?ids) cid s"
  note inv = run_first_team[OF assms]
  note fm = first_team_only_members[OF inv]
  have ne: "?ids \<noteq> []" using assms(6,7) by auto
  have a: "map_option leaderId (selectTeam cid 1 ?s') = Some (hd ?ids)"
    using fm ne by (simp add: hd_conv_nth)
  have b: "team_members cid 1 ?s' = take (min n (nat (groupSize c - 1))) ?ids"
    using fm by (elim conjE)
  have c: "int (length (team_members cid 1 ?s')) < groupSize c"
    using assms(2) by (simp add: b)
  have d: "\<forall>k<length ?ids. leadershipTeamNumber (userPosition (?ids ! k) cid s) = int k + 1"
    using userPosition_joined[OF assms(3)] by (simp add: leadershipTeamNumber_def)
  have e: "\<forall>p\<ge>groupSize c. \<exists>m\<ge>2. membershipTeamNumber p (groupSize c) = Num m"
    using membership_later[OF assms(2)] by blast
  from a b c d e show ?thesis by (intro conjI)
qed

theorem first_team_fills_witness:
  "getCompanyById 0 store_five = Some companyX \<and> 2 \<le> groupSize companyX \<and>
   distinct (map user_id (users store_five)) \<and> partnerships store_five = [] \<and>
   partnershipMembers store_five = [] \<and> joined_ids 0 store_five = [1, 3, 4, 5, 6] \<and>
   map_option leaderId (selectTeam 0 1 (engine_run [1, 3, 4, 5, 6] 0 store_five)) = Some 1 \<and>
   team_members 0 1 (engine_run [1, 3, 4, 5, 6] 0 store_five) = [1, 3, 4]"
proof -
  have h1: "getCompanyById 0 store_five = Some companyX"
    by (simp add: store_five_def getCompanyById_def companyX_def)
  have h2: "2 \<le> groupSize companyX" by (simp add: companyX_def)
  have h3: "distinct (map user_id (users store_five))" by (simp add: store_five_def)
  have h4: "partnerships store_five = []" by (simp add: store_five_def)
  have h5: "partnershipMembers store_five = []" by (simp add: store_five_def)
  have j: "joined_ids 0 store_five = [1, 3, 4, 5, 6]"
    by (simp add: store_five_def joined_ids_def)
  have h6: "(1::nat) \<le> 5" by simp
  have h7: "5 \<le> length (joined_ids 0 store_five)" by (simp add: j)
  have tk: "take 5 [1, 3, 4, 5, 6::nat] = [1, 3, 4, 5, 6]" by simp
  have hd: "hd [1, 3, 4, 5, 6::nat] = 1" by simp
  have mn: "take (min 5 (nat (groupSize companyX - 1))) [1, 3, 4, 5, 6::nat] = [1, 3, 4]"
    by (simp add: companyX_def)
  note t = first_team_fills[OF h1 h2 h3 h4 h5 h6 h7]
  note a = t[THEN conjunct1, unfolded j tk hd]
  note b = t[THEN conjunct2, THEN conjunct1, unfolded j tk mn]
  from h1 h2 h3 h4 h5 j a b show ?thesis by (intro conjI)
qed

subsection \<open>The scenario of five users\<close>

text \<open>
  Claim C3, as the claim states it, fails for D.  D is the fourth user of X, and with team
  size 4 the membership number of position 4 is \<open>floor((4 - 1) / (4 - 1)) + 1 = 2\<close>:
  after the engine has been called for A, B, C, D and E in this order, D is not a member
  of team 1.
\<close>

theorem scenario_D_counterexample:
  "joined_ids 0 store_five = [1, 3, 4, 5, 6] \<and> userPosition 5 0 store_five = 4 \<and>
   membershipTeamNumber 4 4 = Num 2 \<and>
   \<not> is_member 5 0 1 (engine_run [1, 3, 4, 5, 6] 0 store_five)"
  by (simp add: store_five_def companyX_def run_defs engine_defs)

text \<open>
  Claim C3, amended.  Company X has team size 4 and the rows of A, B, C, D, E are stored in
  this order.  After the engine has been called for the five in this order, team 1 has
  leader A and its members are A, B and C.  D is at position 4, with leadership number 4
  and membership number 2; E is at position 5, with leadership number 5 and membership
  number 2.
\<close>

theorem scenario_of_five:
  "joined_ids 0 store_five = [1, 3, 4, 5, 6] \<and>
   map_option leaderId (selectTeam 0 1 (engine_run [1, 3, 4, 5, 6] 0 store_five)) = Some 1 \<and>
   team_members 0 1 (engine_run [1, 3, 4, 5, 6] 0 store_five) = [1, 3, 4] \<and>
   userPosition 5 0 store_five = 4 \<and> leadershipTeamNumber 4 = 4 \<and>
   membershipTeamNumber 4 4 = Num 2 \<and>
   userPosition 6 0 store_five = 5 \<and> leadershipTeamNumber 5 = 5 \<and>
   membershipTeamNumber 5 4 = Num 2"
  by (simp add: store_five_def companyX_def run_defs engine_defs)

subsection \<open>A company that does not exist\<close>

text \<open>
  Claim C7, as the claim states it, fails: the creation of a user for a company that does
  not exist fails with the foreign-key error of the user insert, which is not the engine's
  \<open>Company not found\<close>.
\<close>

theorem createUser_error_counterexample:
  "\<not> company_exists 7 store_ABC \<and>
   createUser \<lparr>iu_email = ''e@z'', iu_companyId = Some 7\<rparr> store_ABC =
     (Inl (ForeignKeyViolation ''users_company_id_companies_id_fk''), store_ABC) \<and>
   fst (createUser \<lparr>iu_email = ''e@z'', iu_companyId = Some 7\<rparr> store_ABC) \<noteq>
     Inl CompanyNotFound"
  by (simp add: store_defs createUser_def insert_users_def company_exists_def)

text \<open>
  Claim C7, amended.  If the store has no company of the given id, the creation of a user
  for that company leaves the store as it is, and it fails with the error of the user
  insert: the uniqueness violation of the email when the email is taken, and else the
  foreign-key violation of \<open>users.company_id\<close>.  Called by itself for such a
  company, the engine throws \<open>Company not found\<close> and leaves the store as it is.
\<close>

theorem createUser_company_not_found:
  assumes "\<not> company_exists cid s" and "iu_companyId v = Some cid"
  shows "snd (createUser v s) = s \<and>
         fst (createUser v s) =
           (if list_ex (\<lambda>r. email r = iu_email v) (users s)
            then Inl (UniqueViolation ''users_email_unique'')
            else Inl (ForeignKeyViolation ''users_company_id_companies_id_fk'')) \<and>
         assignUserToTeam uid cid s = Inl (CompanyNotFound, s)"
proof -
  have a: "assignUserToTeam uid cid s = Inl (CompanyNotFound, s)"
    using getCompanyById_None[OF assms(1)] by (simp add: assignUserToTeam_def)
  have i: "insert_users v s =
           (if list_ex (\<lambda>r. email r = iu_email v) (users s)
            then Inl (UniqueViolation ''users_email_unique'')
            else Inl (ForeignKeyViolation ''users_company_id_companies_id_fk''))"
    using assms by (simp add: insert_users_def)
  have s: "snd (createUser v s) = s" using i by (simp add: createUser_def split: if_splits)
  have f: "fst (createUser v s) =
           (if list_ex (\<lambda>r. email r = iu_email v) (users s)
            then Inl (UniqueViolation ''users_email_unique'')
            else Inl (ForeignKeyViolation ''users_company_id_companies_id_fk''))"
    using i by (simp add: createUser_def split: if_splits)
  from s f a show ?thesis by (intro conjI)
qed

theorem createUser_company_not_found_witness:
  "\<not> company_exists 7 store_ABC \<and>
   iu_companyId \<lparr>iu_email = ''a@x'', iu_companyId = Some 7\<rparr> = Some 7 \<and>
   snd (createUser \<lparr>iu_email = ''a@x'', iu_companyId = Some 7\<rparr> store_ABC) = store_ABC \<and>
   fst (createUser \<lparr>iu_email = ''a@x'', iu_companyId = Some 7\<rparr> store_ABC) =
     Inl (UniqueViolation ''users_email_unique'') \<and>
   assignUserToTeam 20 7 store_ABC = Inl (CompanyNotFound, store_ABC)"
proof -
  have h1: "\<not> company_exists 7 store_ABC" by (simp add: store_defs company_exists_def)
  have h2: "iu_companyId \<lparr>iu_email = ''a@x'', iu_companyId = Some 7\<rparr> = Some 7" by simp
  note t = createUser_company_not_found[OF h1 h2, of 20]
  have a: "assignUserToTeam 20 7 store_ABC = Inl (CompanyNotFound, store_ABC)"
    using t by (elim conjE)
  have s: "snd (createUser \<lparr>iu_email = ''a@x'', iu_companyId = Some 7\<rparr> store_ABC) = store_ABC"
    using t by (elim conjE)
  have e: "list_ex (\<lambda>r. email r = iu_email \<lparr>iu_email = ''a@x'', iu_companyId = Some 7\<rparr>)
              (users store_ABC)"
    by (simp add: store_defs)
  have f: "fst (createUser \<lparr>iu_email = ''a@x'', iu_companyId = Some 7\<rparr> store_ABC) =
        Inl (UniqueViolation ''users_email_unique'')"
    using t e by (elim conjE) (simp only: if_True)
  from h1 h2 s f a show ?thesis by (intro conjI)
qed

subsection \<open>The group identifier\<close>

text \<open>
  Claim C9 (the code does not do this).  The claim is that the group identifier of a new
  team is derived from the company and the team number, so that two companies never get
  the same one.  The engine builds it from the team number alone, and \<open>group_id\<close> is
  unique in the table.  Companies X and Y have one user each, both rows stored.  The call
  of the engine for the user of X creates team 1 of X with \<open>MAKECENTSGRO-T1\<close>; the call
  for the user of Y, at position 1 of Y, then throws, the insert of team 1 of Y being
  refused for its group identifier, and leaves the store as it is.
\<close>

theorem group_id_without_company:
  "assignUserToTeam 2 0 store_XY = Inr (engine_run [2] 0 store_XY) \<and>
   map (\<lambda>t. (companyId t, teamNumber t, groupId t)) (partnerships (engine_run [2] 0 store_XY)) =
     [(0, 1, ''MAKECENTSGRO-T1'')] \<and>
   userPosition 3 1 (engine_run [2] 0 store_XY) = 1 \<and>
   assignUserToTeam 3 1 (engine_run [2] 0 store_XY) =
     Inl (UniqueViolation ''partnerships_group_id_unique'', engine_run [2] 0 store_XY)"
  by (simp add: store_XY_def companyX_def run_defs engine_defs)

subsection \<open>Team sizes below 2\<close>




end
